theory Spec2Isabelle
  imports Complex_Main "HOL-Library.Word" "HOL-Library.Monad_Syntax"
begin

unbundle bit_operations_syntax

section \<open>Floats\<close>

text \<open>
  IEEE 754 arithmetic as the C compiler does it for \<open>float\<close> and \<open>double\<close> when
  each operation is evaluated in the type of its operands: the exact result is rounded
  to the nearest value of the format, a tie to the one with an even significand.
  \<open>round_float p emin x\<close> rounds \<open>x\<close> to \<open>p\<close> significant bits with the least exponent
  \<open>- emin\<close>, below which the spacing stays that of the subnormal numbers, and with no
  bound on the exponent above; \<open>overflow\<close> then turns a result beyond the finite values
  of the format into an infinity.
\<close>

text \<open>The exponent \<open>e\<close> with \<open>2 ^ e \<le> x < 2 ^ (e + 1)\<close>, for \<open>x \<ge> 1\<close>.\<close>

function float_exp_up :: "real \<Rightarrow> int" where
  "float_exp_up x = (if x < 2 then 0 else 1 + float_exp_up (x / 2))"
  by pat_completeness auto
termination
proof (relation "measure (\<lambda>x. nat \<lfloor>x\<rfloor>)")
  show "wf (measure (\<lambda>x. nat \<lfloor>x\<rfloor>))" by simp
next
  fix x :: real
  assume "\<not> x < 2"
  then have "x / 2 \<le> x - 1" by simp
  then have "\<lfloor>x / 2\<rfloor> \<le> \<lfloor>x - 1\<rfloor>" by (rule floor_mono)
  also have "\<dots> = \<lfloor>x\<rfloor> - 1" by simp
  finally have "\<lfloor>x / 2\<rfloor> < \<lfloor>x\<rfloor>" by simp
  moreover from \<open>\<not> x < 2\<close> have "0 < \<lfloor>x\<rfloor>" by simp
  ultimately show "(x / 2, x) \<in> measure (\<lambda>x. nat \<lfloor>x\<rfloor>)" by simp
qed

text \<open>The same exponent for \<open>0 < x < 1\<close>, but never below \<open>- n\<close>.\<close>

primrec float_exp_down :: "nat \<Rightarrow> real \<Rightarrow> int" where
  "float_exp_down 0 x = 0"
| "float_exp_down (Suc n) x = (if 1 \<le> x then 0 else float_exp_down n (2 * x) - 1)"

text \<open>The nearest integer, a tie to the even one.\<close>

definition round_even :: "real \<Rightarrow> int" where
  "round_even y =
     (let n = \<lfloor>y\<rfloor>; d = y - of_int n
      in if d < 1 / 2 then n else if 1 / 2 < d then n + 1 else if even n then n else n + 1)"

definition round_float :: "nat \<Rightarrow> nat \<Rightarrow> real \<Rightarrow> real" where
  "round_float p emin x =
     (if x = 0 then 0
      else
        let e = (if 1 \<le> \<bar>x\<bar> then float_exp_up \<bar>x\<bar> else float_exp_down emin \<bar>x\<bar>);
            u = 2 powi (e - (int p - 1))
        in sgn x * of_int (round_even (\<bar>x\<bar> / u)) * u)"

text \<open>Rounding to \<open>float\<close> (binary32) and to \<open>double\<close> (binary64).\<close>

definition round32 :: "real \<Rightarrow> real" where
  "round32 = round_float 24 126"

definition round64 :: "real \<Rightarrow> real" where
  "round64 = round_float 53 1022"

text \<open>
  A value of type \<open>float\<close> or \<open>double\<close>: a finite number, an infinity or a NaN. (The
  sign of a zero is not kept: no operation below tells the two zeros apart.)
\<close>

datatype cfloat = Finite real | PInf | MInf | NaN

text \<open>A rounded result whose magnitude reaches \<open>2 ^ (emax + 1)\<close> overflows to an infinity.\<close>

definition overflow :: "nat \<Rightarrow> real \<Rightarrow> cfloat" where
  "overflow emax r =
     (if 2 ^ (emax + 1) \<le> \<bar>r\<bar> then (if 0 < r then PInf else MInf) else Finite r)"

definition float32 :: "real \<Rightarrow> cfloat" where
  "float32 x = overflow 127 (round32 x)"

definition float64 :: "real \<Rightarrow> cfloat" where
  "float64 x = overflow 1023 (round64 x)"

text \<open>
  The operations the program uses. \<open>fadd\<close>, \<open>fsub\<close> and \<open>fmul\<close> take the rounding of
  the type they are evaluated in.
\<close>

fun fneg :: "cfloat \<Rightarrow> cfloat" where
  "fneg (Finite a) = Finite (- a)"
| "fneg PInf = MInf"
| "fneg MInf = PInf"
| "fneg NaN = NaN"

fun fadd :: "(real \<Rightarrow> cfloat) \<Rightarrow> cfloat \<Rightarrow> cfloat \<Rightarrow> cfloat" where
  "fadd R (Finite a) (Finite b) = R (a + b)"
| "fadd R NaN y = NaN"
| "fadd R x NaN = NaN"
| "fadd R PInf MInf = NaN"
| "fadd R MInf PInf = NaN"
| "fadd R PInf y = PInf"
| "fadd R x PInf = PInf"
| "fadd R MInf y = MInf"
| "fadd R x MInf = MInf"

definition fsub :: "(real \<Rightarrow> cfloat) \<Rightarrow> cfloat \<Rightarrow> cfloat \<Rightarrow> cfloat" where
  "fsub R x y = fadd R x (fneg y)"

fun fsign :: "cfloat \<Rightarrow> real" where
  "fsign (Finite a) = sgn a"
| "fsign PInf = 1"
| "fsign MInf = - 1"
| "fsign NaN = 0"

fun fmul :: "(real \<Rightarrow> cfloat) \<Rightarrow> cfloat \<Rightarrow> cfloat \<Rightarrow> cfloat" where
  "fmul R (Finite a) (Finite b) = R (a * b)"
| "fmul R NaN y = NaN"
| "fmul R x NaN = NaN"
| "fmul R x y =
     (if fsign x * fsign y = 0 then NaN else if 0 < fsign x * fsign y then PInf else MInf)"

text \<open>\<open>x < y\<close> and \<open>x <= y\<close>: false when an operand is a NaN.\<close>

fun fless :: "cfloat \<Rightarrow> cfloat \<Rightarrow> bool" where
  "fless (Finite a) (Finite b) \<longleftrightarrow> a < b"
| "fless NaN y \<longleftrightarrow> False"
| "fless x NaN \<longleftrightarrow> False"
| "fless x MInf \<longleftrightarrow> False"
| "fless MInf y \<longleftrightarrow> True"
| "fless PInf y \<longleftrightarrow> False"
| "fless x PInf \<longleftrightarrow> True"

fun fle :: "cfloat \<Rightarrow> cfloat \<Rightarrow> bool" where
  "fle (Finite a) (Finite b) \<longleftrightarrow> a \<le> b"
| "fle NaN y \<longleftrightarrow> False"
| "fle x NaN \<longleftrightarrow> False"
| "fle MInf y \<longleftrightarrow> True"
| "fle x PInf \<longleftrightarrow> True"
| "fle x MInf \<longleftrightarrow> False"
| "fle PInf y \<longleftrightarrow> False"

text \<open>The conversion of a \<open>double\<close> to \<open>float\<close>.\<close>

fun double_to_float :: "cfloat \<Rightarrow> cfloat" where
  "double_to_float (Finite r) = float32 r"
| "double_to_float x = x"

section \<open>Data model of dwm.c\<close>

text \<open>
  C \<open>int\<close> and \<open>unsigned int\<close> are 32-bit words: arithmetic wraps, \<open>\<le>s\<close> is the signed
  comparison and \<open>div\<close> on words the unsigned division. A \<open>float\<close> or \<open>double\<close>
  is a \<open>cfloat\<close>: a finite value is the real number it stands for, and every
  operation rounds its result (section Floats). A \<open>Client *\<close> is an address, \<open>NULL\<close> is address 0, and
  the store \<open>heap\<close> gives the \<open>Client\<close> at every address. \<open>Window\<close> is an XID
  (\<open>unsigned long\<close>).
\<close>

type_synonym u32 = "32 word"
type_synonym ptr = nat
type_synonym Window = "64 word"

abbreviation NULL :: ptr where "NULL \<equiv> 0"

text \<open>
  \<open>struct Client\<close>. The fields \<open>x y w h oldx oldy oldw oldh next\<close> carry the prefix
  \<open>c_\<close>. The fields that no function below reads or writes (\<open>name\<close>, the size
  hints, \<open>isurgent\<close>, \<open>neverfocus\<close>, \<open>oldstate\<close>, \<open>isfullscreen\<close>) are left out, and
  so is \<open>mon\<close>: \<open>createmon\<close> is the only place that allocates a monitor and it
  allocates one, so \<open>c->mon\<close> is \<open>selmon\<close> for every client.
\<close>

record Client =
  c_x :: u32
  c_y :: u32
  c_w :: u32
  c_h :: u32
  c_oldx :: u32
  c_oldy :: u32
  c_oldw :: u32
  c_oldh :: u32
  bw :: u32
  oldbw :: u32
  tags :: u32
  isfixed :: u32
  isfloating :: u32
  c_next :: ptr
  snext :: ptr
  win :: Window

text \<open>
  \<open>struct Monitor\<close>. \<open>seltags\<close> is 0 after \<open>calloc\<close> and the only assignment to it
  is \<open>seltags ^= 1\<close>, so it is one bit, and \<open>tagset[2]\<close> is a function of that bit.
  \<open>ltsymbol\<close>, \<open>num\<close>, \<open>by\<close>, \<open>barwin\<close> and \<open>next\<close> (always \<open>NULL\<close>) are left out.
\<close>

record Monitor =
  mfact :: cfloat
  nmaster :: u32
  mx :: u32
  my :: u32
  mw :: u32
  mh :: u32
  wx :: u32
  wy :: u32
  ww :: u32
  wh :: u32
  seltags :: "1 word"
  sellt :: u32
  tagset :: "1 word \<Rightarrow> u32"
  showbar :: u32
  topbar :: u32
  clients :: ptr
  sel :: ptr
  stack :: ptr

text \<open>The values \<open>config.h\<close> defines; the file is not part of the sources.\<close>

record config =
  cfg_mfact :: cfloat
  cfg_nmaster :: u32
  cfg_showbar :: u32
  cfg_topbar :: u32
  borderpx :: u32
  ntags :: nat

text \<open>\<open>XErrorEvent\<close>: the two fields \<open>xerror\<close> reads, both \<open>unsigned char\<close>.\<close>

record XErrorEvent =
  request_code :: "8 word"
  error_code :: "8 word"

text \<open>\<open>XWindowAttributes\<close>: the fields \<open>manage\<close> reads.\<close>

record XWindowAttributes =
  wa_x :: u32
  wa_y :: u32
  wa_width :: u32
  wa_height :: u32
  wa_border_width :: u32

text \<open>
  The requests the functions below send to the X server on client windows, in the
  order sent. \<open>SendConfigureNotify\<close> is the \<open>XSendEvent\<close> of \<open>configure\<close> with its
  \<open>x y width height border_width\<close>; \<open>SetWMState\<close> is the \<open>XChangeProperty\<close> of
  \<open>setclientstate\<close>. \<open>SendClientMessage\<close> is a \<open>WM_PROTOCOLS\<close> client message with
  the named protocol atom: no function of dwm.c sends it.
\<close>

datatype xreq =
    XMoveResizeWindow Window u32 u32 u32 u32
  | XMoveWindow Window u32 u32
  | SendConfigureNotify Window u32 u32 u32 u32 u32
  | XSelectInput Window
  | SetWMState Window u32
  | XMapWindow Window
  | XKillClient Window
  | XGrabServer
  | XUngrabButton Window
  | XSync
  | XUngrabServer
  | SendClientMessage Window string

text \<open>
  The global state once \<open>setup\<close> has run: \<open>mon\<close> is the monitor that \<open>mons\<close> and
  \<open>selmon\<close> both point to, \<open>xerrorxlib\<close> the function pointer of that name
  (\<open>None\<close> is the null pointer), \<open>xlog\<close> the requests sent so far and \<open>err\<close> what
  was written to stderr.
\<close>

record wm =
  mon :: Monitor
  heap :: "ptr \<Rightarrow> Client"
  xerrorxlib :: "(XErrorEvent \<Rightarrow> u32) option"
  xlog :: "xreq list"
  err :: "string list"

section \<open>Macros\<close>

definition TAGMASK :: "config \<Rightarrow> u32" where
  "TAGMASK cfg = push_bit (ntags cfg) 1 - 1"

definition ISVISIBLE :: "wm \<Rightarrow> ptr \<Rightarrow> bool" where
  "ISVISIBLE s c \<longleftrightarrow> tags (heap s c) AND tagset (mon s) (seltags (mon s)) \<noteq> 0"

definition WIDTH :: "wm \<Rightarrow> ptr \<Rightarrow> u32" where
  "WIDTH s c = c_w (heap s c) + 2 * bw (heap s c)"

definition HEIGHT :: "wm \<Rightarrow> ptr \<Rightarrow> u32" where
  "HEIGHT s c = c_h (heap s c) + 2 * bw (heap s c)"

section \<open>Functions\<close>

text \<open>
  A function that loops over a client list, or calls one that does, returns an
  option: \<open>None\<close> when it does not return normally, because the list is cyclic and the
  loop never ends or because the behaviour is undefined in C (an index outside
  \<open>layouts\<close>, a division by zero, a float outside the range of \<open>unsigned int\<close>).
\<close>

definition xsend :: "xreq \<Rightarrow> wm \<Rightarrow> wm" where
  "xsend r s = s\<lparr>xlog := xlog s @ [r]\<rparr>"

definition configure :: "ptr \<Rightarrow> wm \<Rightarrow> wm" where
  "configure c s =
     xsend (SendConfigureNotify (win (heap s c)) (c_x (heap s c)) (c_y (heap s c))
              (c_w (heap s c)) (c_h (heap s c)) (bw (heap s c))) s"

definition resize :: "ptr \<Rightarrow> u32 \<Rightarrow> u32 \<Rightarrow> u32 \<Rightarrow> u32 \<Rightarrow> u32 \<Rightarrow> wm \<Rightarrow> wm" where
  "resize c x y w h interact s =
     (if w \<le>s 0 \<or> h \<le>s 0 then s
      else
        let s1 = s\<lparr>heap := (heap s)(c := (heap s c)\<lparr>c_x := x, c_y := y, c_w := w, c_h := h\<rparr>)\<rparr>;
            s2 = xsend (XMoveResizeWindow (win (heap s1 c)) (c_x (heap s1 c)) (c_y (heap s1 c))
                          (c_w (heap s1 c)) (c_h (heap s1 c))) s1
        in configure c s2)"

partial_function (option) nexttiled :: "wm \<Rightarrow> ptr \<Rightarrow> ptr option" where
  "nexttiled s c =
     (if c \<noteq> NULL \<and> (isfloating (heap s c) \<noteq> 0 \<or> \<not> ISVISIBLE s c)
      then nexttiled s (c_next (heap s c))
      else Some c)"

text \<open>The loop of \<open>focus\<close> and \<open>detachstack\<close>: the first visible client from \<open>t\<close> on.\<close>

partial_function (option) first_visible :: "wm \<Rightarrow> ptr \<Rightarrow> ptr option" where
  "first_visible s t =
     (if t \<noteq> NULL \<and> \<not> ISVISIBLE s t then first_visible s (snext (heap s t)) else Some t)"

definition focus :: "ptr \<Rightarrow> wm \<Rightarrow> wm option" where
  "focus c s =
     do {
       c' \<leftarrow> (if c = NULL \<or> \<not> ISVISIBLE s c then first_visible s (stack (mon s)) else Some c);
       Some (s\<lparr>mon := (mon s)\<lparr>sel := c'\<rparr>\<rparr>)
     }"

partial_function (option) showhide :: "ptr \<Rightarrow> wm \<Rightarrow> wm option" where
  "showhide c s =
     (if c = NULL then Some s
      else if ISVISIBLE s c then
        (let s1 = xsend (XMoveWindow (win (heap s c)) (c_x (heap s c)) (c_y (heap s c))) s;
             s2 = (if sel (mon s1) \<noteq> NULL \<and> isfloating (heap s1 (sel (mon s1))) \<noteq> 0
                   then resize c (c_x (heap s1 c)) (c_y (heap s1 c)) (c_w (heap s1 c))
                          (c_h (heap s1 c)) 0 s1
                   else s1)
         in showhide (snext (heap s2 c)) s2)
      else
        do {
          s1 \<leftarrow> showhide (snext (heap s c)) s;
          Some (xsend (XMoveWindow (win (heap s1 c)) (WIDTH s1 c * (- 2)) (c_y (heap s1 c))) s1)
        })"

text \<open>
  The conversion of a \<open>float\<close> to \<open>unsigned int\<close>: truncation, undefined when the
  truncated value is out of range and for an infinity or a NaN. In \<open>tile\<close> the \<open>int\<close>
  \<open>ww\<close> is converted to \<open>float\<close> and the product with \<open>mfact\<close> is a \<open>float\<close>.
\<close>

fun float_to_uint :: "cfloat \<Rightarrow> u32 option" where
  "float_to_uint (Finite r) =
     (let t = (if 0 \<le> r then \<lfloor>r\<rfloor> else \<lceil>r\<rceil>)
      in if 0 \<le> t \<and> t < 2 ^ 32 then Some (word_of_int t) else None)"
| "float_to_uint x = None"

text \<open>The first loop of \<open>tile\<close>, which counts the tiled clients.\<close>

partial_function (option) tile_count :: "wm \<Rightarrow> ptr \<Rightarrow> u32 \<Rightarrow> u32 option" where
  "tile_count s c n =
     (if c \<noteq> NULL
      then do { c' \<leftarrow> nexttiled s (c_next (heap s c)); tile_count s c' (n + 1) }
      else Some n)"

text \<open>
  The second loop of \<open>tile\<close>, with its variables \<open>c i my ty\<close>; the local \<open>my\<close> is
  written \<open>my'\<close>, the local \<open>mw\<close> is \<open>mw'\<close>.
\<close>

partial_function (option) tile_loop ::
  "u32 \<Rightarrow> u32 \<Rightarrow> ptr \<Rightarrow> u32 \<Rightarrow> u32 \<Rightarrow> u32 \<Rightarrow> wm \<Rightarrow> wm option" where
  "tile_loop n mw' c i my' ty s =
     (if c = NULL then Some s
      else if i < nmaster (mon s) then
        (let d = (if n < nmaster (mon s) then n else nmaster (mon s)) - i
         in if d = 0 then None
            else
              let h = (wh (mon s) - my') div d;
                  s1 = resize c (wx (mon s)) (wy (mon s) + my') (mw' - 2 * bw (heap s c))
                         (h - 2 * bw (heap s c)) 0 s
              in do {
                   c' \<leftarrow> nexttiled s1 (c_next (heap s1 c));
                   tile_loop n mw' c' (i + 1) (my' + HEIGHT s1 c) ty s1
                 })
      else
        (let d = n - i
         in if d = 0 then None
            else
              let h = (wh (mon s) - ty) div d;
                  s1 = resize c (wx (mon s) + mw') (wy (mon s) + ty)
                         (ww (mon s) - mw' - 2 * bw (heap s c)) (h - 2 * bw (heap s c)) 0 s
              in do {
                   c' \<leftarrow> nexttiled s1 (c_next (heap s1 c));
                   tile_loop n mw' c' (i + 1) my' (ty + HEIGHT s1 c) s1
                 }))"

definition tile :: "wm \<Rightarrow> wm option" where
  "tile s =
     do {
       c0 \<leftarrow> nexttiled s (clients (mon s));
       n \<leftarrow> tile_count s c0 0;
       if n = 0 then Some s
       else do {
         mw' \<leftarrow> (if n > nmaster (mon s)
                 then (if nmaster (mon s) \<noteq> 0
                       then float_to_uint
                              (fmul float32 (float32 (real_of_int (sint (ww (mon s)))))
                                 (mfact (mon s)))
                       else Some 0)
                 else Some (ww (mon s)));
         c1 \<leftarrow> nexttiled s (clients (mon s));
         tile_loop n mw' c1 0 0 0 s
       }
     }"

text \<open>The first loop of \<open>monocle\<close>, which counts the visible clients.\<close>

partial_function (option) monocle_count :: "wm \<Rightarrow> ptr \<Rightarrow> u32 \<Rightarrow> u32 option" where
  "monocle_count s c n =
     (if c \<noteq> NULL
      then monocle_count s (c_next (heap s c)) (if ISVISIBLE s c then n + 1 else n)
      else Some n)"

partial_function (option) monocle_loop :: "ptr \<Rightarrow> wm \<Rightarrow> wm option" where
  "monocle_loop c s =
     (if c = NULL then Some s
      else
        let s1 = resize c (wx (mon s)) (wy (mon s)) (ww (mon s) - 2 * bw (heap s c))
                   (wh (mon s) - 2 * bw (heap s c)) 0 s
        in do { c' \<leftarrow> nexttiled s1 (c_next (heap s1 c)); monocle_loop c' s1 })"

definition monocle :: "wm \<Rightarrow> wm option" where
  "monocle s =
     do {
       n \<leftarrow> monocle_count s (clients (mon s)) 0;
       if n > 0 then do { c \<leftarrow> nexttiled s (clients (mon s)); monocle_loop c s }
       else Some s
     }"

text \<open>The array \<open>layouts\<close>: symbol and arrange function, \<open>None\<close> for the null pointer.\<close>

datatype arrange_fn = Tile | Monocle

definition layouts :: "(string \<times> arrange_fn option) list" where
  "layouts = [(''[T]'', Some Tile), (''[F]'', None), (''[M]'', Some Monocle)]"

text \<open>\<open>restack\<close> has an empty body.\<close>

definition restack :: "wm \<Rightarrow> wm" where
  "restack s = s"

definition arrange :: "wm \<Rightarrow> wm option" where
  "arrange s =
     do {
       s1 \<leftarrow> showhide (stack (mon s)) s;
       s2 \<leftarrow> (if unat (sellt (mon s1)) < length layouts
              then (case snd (layouts ! unat (sellt (mon s1))) of
                      None \<Rightarrow> Some s1
                    | Some Tile \<Rightarrow> tile s1
                    | Some Monocle \<Rightarrow> monocle s1)
              else None);
       Some (restack s2)
     }"

definition view :: "config \<Rightarrow> u32 \<Rightarrow> wm \<Rightarrow> wm option" where
  "view cfg ui s =
     (if ui AND TAGMASK cfg = tagset (mon s) (seltags (mon s)) then Some s
      else
        let m1 = (mon s)\<lparr>seltags := seltags (mon s) XOR 1\<rparr>;
            m2 = (if ui AND TAGMASK cfg \<noteq> 0
                  then m1\<lparr>tagset := (tagset m1)(seltags m1 := ui AND TAGMASK cfg)\<rparr>
                  else m1)
        in do { s1 \<leftarrow> focus NULL (s\<lparr>mon := m2\<rparr>); arrange s1 })"

definition toggleview :: "config \<Rightarrow> u32 \<Rightarrow> wm \<Rightarrow> wm option" where
  "toggleview cfg ui s =
     (let newtagset = tagset (mon s) (seltags (mon s)) XOR (ui AND TAGMASK cfg)
      in if newtagset \<noteq> 0
         then do {
           s1 \<leftarrow> focus NULL
                  (s\<lparr>mon := (mon s)\<lparr>tagset := (tagset (mon s))(seltags (mon s) := newtagset)\<rparr>\<rparr>);
           arrange s1
         }
         else Some s)"

definition tag :: "config \<Rightarrow> u32 \<Rightarrow> wm \<Rightarrow> wm option" where
  "tag cfg ui s =
     (if sel (mon s) \<noteq> NULL \<and> ui AND TAGMASK cfg \<noteq> 0
      then do {
        s1 \<leftarrow> focus NULL
               (s\<lparr>heap := (heap s)(sel (mon s) :=
                    (heap s (sel (mon s)))\<lparr>tags := ui AND TAGMASK cfg\<rparr>)\<rparr>);
        arrange s1
      }
      else Some s)"

definition toggletag :: "config \<Rightarrow> u32 \<Rightarrow> wm \<Rightarrow> wm option" where
  "toggletag cfg ui s =
     (if sel (mon s) = NULL then Some s
      else
        let newtags = tags (heap s (sel (mon s))) XOR (ui AND TAGMASK cfg)
        in if newtags \<noteq> 0
           then do {
             s1 \<leftarrow> focus NULL
                    (s\<lparr>heap := (heap s)(sel (mon s) :=
                         (heap s (sel (mon s)))\<lparr>tags := newtags\<rparr>)\<rparr>);
             arrange s1
           }
           else Some s)"

text \<open>
  \<open>setmfact\<close>: the argument is \<open>None\<close> for a null \<open>arg\<close>, else the float \<open>arg->f\<close>;
  \<open>selmon\<close> is not null here. The sum is a \<open>float\<close> addition, the difference a
  \<open>double\<close> subtraction, the assignment to \<open>f\<close> converts to \<open>float\<close>, and \<open>1.0\<close>,
  \<open>0.1\<close> and \<open>0.9\<close> are \<open>double\<close> constants (a \<open>float\<close> is converted to \<open>double\<close>
  without change).
\<close>

definition setmfact :: "cfloat option \<Rightarrow> wm \<Rightarrow> wm option" where
  "setmfact arg s =
     (case arg of
        None \<Rightarrow> Some s
      | Some a \<Rightarrow>
          let f = double_to_float
                    (if fless a (Finite 1) then fadd float32 a (mfact (mon s))
                     else fsub float64 a (Finite 1))
          in if fless f (float64 (1 / 10)) \<or> fless (float64 (9 / 10)) f then Some s
             else arrange (s\<lparr>mon := (mon s)\<lparr>mfact := f\<rparr>\<rparr>))"

text \<open>
  \<open>setlayout\<close>: the argument is \<open>None\<close> when \<open>arg\<close> or \<open>arg->v\<close> is null, and
  \<open>Some k\<close> when \<open>arg->v\<close> is \<open>&layouts[k]\<close>, so that the pointer difference is \<open>k\<close>.
\<close>

definition setlayout :: "nat option \<Rightarrow> wm \<Rightarrow> wm option" where
  "setlayout v s =
     arrange (s\<lparr>mon := (mon s)\<lparr>sellt :=
        (case v of None \<Rightarrow> sellt (mon s) XOR 1 | Some k \<Rightarrow> of_nat k)\<rparr>\<rparr>)"

definition killclient :: "wm \<Rightarrow> wm" where
  "killclient s =
     (if sel (mon s) = NULL then s
      else xsend (XKillClient (win (heap s (sel (mon s))))) s)"

subsection \<open>Client lists\<close>

definition applyrules :: "ptr \<Rightarrow> wm \<Rightarrow> wm" where
  "applyrules c s =
     s\<lparr>heap := (heap s)(c := (heap s c)\<lparr>tags := tagset (mon s) (seltags (mon s))\<rparr>)\<rparr>"

definition attach :: "ptr \<Rightarrow> wm \<Rightarrow> wm" where
  "attach c s =
     (let s1 = s\<lparr>heap := (heap s)(c := (heap s c)\<lparr>c_next := clients (mon s)\<rparr>)\<rparr>
      in s1\<lparr>mon := (mon s1)\<lparr>clients := c\<rparr>\<rparr>)"

definition attachstack :: "ptr \<Rightarrow> wm \<Rightarrow> wm" where
  "attachstack c s =
     (let s1 = s\<lparr>heap := (heap s)(c := (heap s c)\<lparr>snext := stack (mon s)\<rparr>)\<rparr>
      in s1\<lparr>mon := (mon s1)\<lparr>stack := c\<rparr>\<rparr>)"

text \<open>
  The \<open>Client **tc\<close> of \<open>detach\<close> and \<open>detachstack\<close> points to a list head of the
  monitor or to a link field of a client.
\<close>

datatype slot = ClientsHead | NextOf ptr | StackHead | SnextOf ptr

fun read_slot :: "wm \<Rightarrow> slot \<Rightarrow> ptr" where
  "read_slot s ClientsHead = clients (mon s)"
| "read_slot s (NextOf a) = c_next (heap s a)"
| "read_slot s StackHead = stack (mon s)"
| "read_slot s (SnextOf a) = snext (heap s a)"

fun write_slot :: "slot \<Rightarrow> ptr \<Rightarrow> wm \<Rightarrow> wm" where
  "write_slot ClientsHead v s = s\<lparr>mon := (mon s)\<lparr>clients := v\<rparr>\<rparr>"
| "write_slot (NextOf a) v s = s\<lparr>heap := (heap s)(a := (heap s a)\<lparr>c_next := v\<rparr>)\<rparr>"
| "write_slot StackHead v s = s\<lparr>mon := (mon s)\<lparr>stack := v\<rparr>\<rparr>"
| "write_slot (SnextOf a) v s = s\<lparr>heap := (heap s)(a := (heap s a)\<lparr>snext := v\<rparr>)\<rparr>"

partial_function (option) detach_loop :: "wm \<Rightarrow> ptr \<Rightarrow> slot \<Rightarrow> slot option" where
  "detach_loop s c tc =
     (if read_slot s tc \<noteq> NULL \<and> read_slot s tc \<noteq> c
      then detach_loop s c (NextOf (read_slot s tc))
      else Some tc)"

definition detach :: "ptr \<Rightarrow> wm \<Rightarrow> wm option" where
  "detach c s =
     do { tc \<leftarrow> detach_loop s c ClientsHead; Some (write_slot tc (c_next (heap s c)) s) }"

partial_function (option) detachstack_loop :: "wm \<Rightarrow> ptr \<Rightarrow> slot \<Rightarrow> slot option" where
  "detachstack_loop s c tc =
     (if read_slot s tc \<noteq> NULL \<and> read_slot s tc \<noteq> c
      then detachstack_loop s c (SnextOf (read_slot s tc))
      else Some tc)"

definition detachstack :: "ptr \<Rightarrow> wm \<Rightarrow> wm option" where
  "detachstack c s =
     do {
       tc \<leftarrow> detachstack_loop s c StackHead;
       let s1 = write_slot tc (snext (heap s c)) s;
       if c = sel (mon s1)
       then do {
         t \<leftarrow> first_visible s1 (stack (mon s1));
         Some (s1\<lparr>mon := (mon s1)\<lparr>sel := t\<rparr>\<rparr>)
       }
       else Some s1
     }"

subsection \<open>Creating the monitor and managing windows\<close>

definition calloc_Monitor :: Monitor where
  "calloc_Monitor =
     \<lparr>mfact = Finite 0, nmaster = 0, mx = 0, my = 0, mw = 0, mh = 0, wx = 0, wy = 0, ww = 0,
      wh = 0, seltags = 0, sellt = 0, tagset = (\<lambda>i. 0), showbar = 0, topbar = 0,
      clients = NULL, sel = NULL, stack = NULL\<rparr>"

definition calloc_Client :: Client where
  "calloc_Client =
     \<lparr>c_x = 0, c_y = 0, c_w = 0, c_h = 0, c_oldx = 0, c_oldy = 0, c_oldw = 0, c_oldh = 0,
      bw = 0, oldbw = 0, tags = 0, isfixed = 0, isfloating = 0, c_next = NULL,
      snext = NULL, win = 0\<rparr>"

text \<open>
  \<open>createmon\<close> and \<open>updategeom\<close> take the global \<open>mons\<close> (\<open>None\<close> when null) and
  return the monitor it points to afterwards; \<open>sw\<close> and \<open>sh\<close> are passed in.
\<close>

definition createmon :: "config \<Rightarrow> Monitor option \<Rightarrow> Monitor" where
  "createmon cfg mons =
     (case mons of
        None \<Rightarrow>
          calloc_Monitor\<lparr>tagset := (tagset calloc_Monitor)(1 := 1, 0 := 1),
            mfact := cfg_mfact cfg, nmaster := cfg_nmaster cfg,
            showbar := cfg_showbar cfg, topbar := cfg_topbar cfg\<rparr>
      | Some m \<Rightarrow> m)"

definition updategeom :: "config \<Rightarrow> u32 \<Rightarrow> u32 \<Rightarrow> Monitor option \<Rightarrow> Monitor" where
  "updategeom cfg sw sh mons =
     (let m = (case mons of None \<Rightarrow> createmon cfg mons | Some m \<Rightarrow> m)
      in m\<lparr>wx := 0, mx := 0, wy := 0, my := 0, ww := sw, mw := sw, wh := sh, mh := sh\<rparr>)"

text \<open>
  \<open>dwm_setup\<close> is the function \<open>setup\<close> of dwm.c (the name is taken in Isabelle), on a
  display of width \<open>dw\<close> and height \<open>dh\<close>, from the initial values of
  the globals: \<open>mons\<close> and \<open>xerrorxlib\<close> are static, so null, and \<open>setup\<close> assigns
  \<open>xerrorxlib\<close> nowhere (it calls \<open>XSetErrorHandler(xerror)\<close> twice and drops what the
  call returns). Its requests on the root window are not recorded.
\<close>

definition dwm_setup :: "config \<Rightarrow> u32 \<Rightarrow> u32 \<Rightarrow> wm" where
  "dwm_setup cfg dw dh =
     \<lparr>mon = createmon cfg (Some (updategeom cfg dw dh None)),
      heap = (\<lambda>a. calloc_Client), xerrorxlib = None, xlog = [], err = []\<rparr>"

definition setclientstate :: "ptr \<Rightarrow> u32 \<Rightarrow> wm \<Rightarrow> wm" where
  "setclientstate c state s = xsend (SetWMState (win (heap s c)) state) s"

definition NormalState :: u32 where "NormalState = 1"
definition WithdrawnState :: u32 where "WithdrawnState = 0"

text \<open>
  \<open>manage\<close>: \<open>p\<close> is the address \<open>calloc\<close> returns; the store through a null \<open>p\<close> is
  undefined.
\<close>

definition manage :: "config \<Rightarrow> ptr \<Rightarrow> Window \<Rightarrow> XWindowAttributes \<Rightarrow> wm \<Rightarrow> wm option" where
  "manage cfg p w wa s =
     (if p = NULL then None
      else
        let s1 = s\<lparr>heap := (heap s)(p := calloc_Client\<lparr>win := w,
                    c_oldx := wa_x wa, c_x := wa_x wa, c_oldy := wa_y wa, c_y := wa_y wa,
                    c_oldw := wa_width wa, c_w := wa_width wa,
                    c_oldh := wa_height wa, c_h := wa_height wa,
                    oldbw := wa_border_width wa, bw := borderpx cfg, tags := 0\<rparr>)\<rparr>;
            s2 = attachstack p (attach p (applyrules p s1));
            s3 = xsend (XSelectInput w) s2;
            s4 = xsend (XMoveResizeWindow (win (heap s3 p)) (c_x (heap s3 p)) (c_y (heap s3 p))
                          (c_w (heap s3 p)) (c_h (heap s3 p))) s3;
            s5 = configure p (setclientstate p NormalState s4);
            s6 = xsend (XMapWindow (win (heap s5 p))) s5
        in do { s7 \<leftarrow> focus p s6; arrange s7 })"

text \<open>\<open>unmanage\<close>: \<open>free\<close> leaves the store as it is; \<open>updateclientlist\<close> is empty.\<close>

definition unmanage :: "ptr \<Rightarrow> bool \<Rightarrow> wm \<Rightarrow> wm option" where
  "unmanage c destroyed s =
     do {
       s1 \<leftarrow> detach c s;
       s2 \<leftarrow> detachstack c s1;
       let s3 = (if \<not> destroyed
                 then xsend XUngrabServer (xsend XSync (setclientstate c WithdrawnState
                        (xsend (XUngrabButton (win (heap s2 c))) (xsend XGrabServer s2))))
                 else s2);
       s4 \<leftarrow> focus NULL s3;
       arrange s4
     }"

subsection \<open>The X error handler\<close>

text \<open>Error and request codes of the X protocol (\<open>X11/X.h\<close>, \<open>X11/Xproto.h\<close>).\<close>

definition BadWindow :: "8 word" where "BadWindow = 3"
definition BadMatch :: "8 word" where "BadMatch = 8"
definition BadDrawable :: "8 word" where "BadDrawable = 9"
definition BadAccess :: "8 word" where "BadAccess = 10"
definition BadAlloc :: "8 word" where "BadAlloc = 11"

definition X_CreateWindow :: "8 word" where "X_CreateWindow = 1"
definition X_ConfigureWindow :: "8 word" where "X_ConfigureWindow = 12"
definition X_GrabButton :: "8 word" where "X_GrabButton = 28"
definition X_GrabKey :: "8 word" where "X_GrabKey = 33"
definition X_SetInputFocus :: "8 word" where "X_SetInputFocus = 42"
definition X_CopyArea :: "8 word" where "X_CopyArea = 62"
definition X_PolySegment :: "8 word" where "X_PolySegment = 66"
definition X_PolyFillRectangle :: "8 word" where "X_PolyFillRectangle = 70"
definition X_PolyText8 :: "8 word" where "X_PolyText8 = 74"

text \<open>The decimal digits \<open>%d\<close> prints for a code.\<close>

fun decimal :: "nat \<Rightarrow> string" where
  "decimal n =
     (if n < 10 then [char_of (48 + n)] else decimal (n div 10) @ [char_of (48 + n mod 10)])"

definition fatal_message :: "XErrorEvent \<Rightarrow> string" where
  "fatal_message ee =
     ''dwm: fatal error: request code='' @ decimal (unat (request_code ee)) @
     '', error code='' @ decimal (unat (error_code ee)) @ [CHR 0x0A]"

datatype error = NullFunctionCall

text \<open>
  \<open>xerror\<close> returns the handler's result and the state, or the error of calling
  through the null function pointer.
\<close>

definition xerror :: "wm \<Rightarrow> XErrorEvent \<Rightarrow> error + (u32 \<times> wm)" where
  "xerror s ee =
     (if error_code ee = BadWindow
         \<or> (request_code ee = X_SetInputFocus \<and> error_code ee = BadMatch)
         \<or> (request_code ee = X_PolyText8 \<and> error_code ee = BadDrawable)
         \<or> (request_code ee = X_PolyFillRectangle \<and> error_code ee = BadDrawable)
         \<or> (request_code ee = X_PolySegment \<and> error_code ee = BadDrawable)
         \<or> (request_code ee = X_ConfigureWindow \<and> error_code ee = BadMatch)
         \<or> (request_code ee = X_GrabButton \<and> error_code ee = BadAccess)
         \<or> (request_code ee = X_GrabKey \<and> error_code ee = BadAccess)
         \<or> (request_code ee = X_CopyArea \<and> error_code ee = BadDrawable)
      then Inr (0, s)
      else
        let s1 = s\<lparr>err := err s @ [fatal_message ee]\<rparr>
        in case xerrorxlib s1 of
             None \<Rightarrow> Inl NullFunctionCall
           | Some handler \<Rightarrow> Inr (handler ee, s1))"

subsection \<open>The command line\<close>

text \<open>
  How \<open>main\<close> ends its argument check: the process has exited, with what \<open>die\<close>
  wrote to stderr and the exit status, or \<open>main\<close> goes on to open the display.
\<close>

datatype startup = Exited string nat | Proceeds

definition die :: "string \<Rightarrow> startup" where
  "die fmt = Exited fmt 1"

text \<open>\<open>main\<close> on the vector \<open>argv\<close>, \<open>argc\<close> being its length.\<close>

definition main :: "string list \<Rightarrow> startup" where
  "main argv =
     (if length argv = 2 \<and> argv ! 1 = ''-v'' then die (''dwm-minimal-1.0'' @ [CHR 0x0A])
      else if length argv \<noteq> 1 then die (''usage: dwm [-v]'' @ [CHR 0x0A])
      else Proceeds)"

subsection \<open>Actions\<close>

text \<open>
  \<open>keypress\<close> calls the function of a key binding with the binding's argument, and
  the event handlers call \<open>manage\<close> and \<open>unmanage\<close>. An action is one such call;
  \<open>run_actions\<close> makes them one after the other and stops at the first that does
  not return.
\<close>

datatype action =
    View u32
  | ToggleView u32
  | Tag u32
  | ToggleTag u32
  | SetMfact "cfloat option"
  | SetLayout "nat option"
  | KillClient
  | Manage ptr Window XWindowAttributes
  | Unmanage ptr bool

fun exec :: "config \<Rightarrow> action \<Rightarrow> wm \<Rightarrow> wm option" where
  "exec cfg (View ui) s = view cfg ui s"
| "exec cfg (ToggleView ui) s = toggleview cfg ui s"
| "exec cfg (Tag ui) s = tag cfg ui s"
| "exec cfg (ToggleTag ui) s = toggletag cfg ui s"
| "exec cfg (SetMfact f) s = setmfact f s"
| "exec cfg (SetLayout v) s = setlayout v s"
| "exec cfg KillClient s = Some (killclient s)"
| "exec cfg (Manage p w wa) s = manage cfg p w wa s"
| "exec cfg (Unmanage c destroyed) s = unmanage c destroyed s"

fun run_actions :: "config \<Rightarrow> action list \<Rightarrow> wm \<Rightarrow> wm option" where
  "run_actions cfg [] s = Some s"
| "run_actions cfg (a # as) s = exec cfg a s \<bind> run_actions cfg as"

section \<open>Notions used in the statements\<close>

text \<open>The view of the monitor: \<open>selmon->tagset[selmon->seltags]\<close>.\<close>

definition viewing :: "wm \<Rightarrow> u32" where
  "viewing s = tagset (mon s) (seltags (mon s))"

definition tags_of :: "ptr \<Rightarrow> wm \<Rightarrow> u32" where
  "tags_of c s = tags (heap s c)"

definition selected :: "wm \<Rightarrow> ptr" where
  "selected s = sel (mon s)"

definition geometry :: "ptr \<Rightarrow> wm \<Rightarrow> u32 \<times> u32 \<times> u32 \<times> u32" where
  "geometry c s = (c_x (heap s c), c_y (heap s c), c_w (heap s c), c_h (heap s c))"

text \<open>
  \<open>stack_list s p cs\<close>: following \<open>snext\<close> from \<open>p\<close> visits the clients \<open>cs\<close>, in
  this order, and then reaches \<open>NULL\<close>. \<open>client_list\<close> is the same along \<open>next\<close>.
\<close>

fun stack_list :: "wm \<Rightarrow> ptr \<Rightarrow> ptr list \<Rightarrow> bool" where
  "stack_list s p [] \<longleftrightarrow> p = NULL"
| "stack_list s p (a # as) \<longleftrightarrow> p = a \<and> a \<noteq> NULL \<and> stack_list s (snext (heap s a)) as"

fun client_list :: "wm \<Rightarrow> ptr \<Rightarrow> ptr list \<Rightarrow> bool" where
  "client_list s p [] \<longleftrightarrow> p = NULL"
| "client_list s p (a # as) \<longleftrightarrow> p = a \<and> a \<noteq> NULL \<and> client_list s (c_next (heap s a)) as"

text \<open>The first visible client of a list of clients, \<open>NULL\<close> when there is none.\<close>

definition first_visible_of :: "wm \<Rightarrow> ptr list \<Rightarrow> ptr" where
  "first_visible_of s cs = (case find (ISVISIBLE s) cs of None \<Rightarrow> NULL | Some t \<Rightarrow> t)"

text \<open>
  A configuration with nine tags and \<open>mfact = 0.55\<close>, that is the \<open>float\<close> nearest to
  0.55, and the attributes of a window to map.
\<close>

definition cfg0 :: config where
  "cfg0 = \<lparr>cfg_mfact = Finite (9227469 / 16777216), cfg_nmaster = 1, cfg_showbar = 1, cfg_topbar = 1,
           borderpx = 1, ntags = 9\<rparr>"

definition wa0 :: XWindowAttributes where
  "wa0 = \<lparr>wa_x = 10, wa_y = 20, wa_width = 300, wa_height = 200, wa_border_width = 0\<rparr>"

definition nogeom :: "Client \<Rightarrow> Client" where
  "nogeom c = c\<lparr>c_x := 0, c_y := 0, c_w := 0, c_h := 0\<rparr>"

text \<open>\<open>same_links s s'\<close>: the two states differ in client geometry and requests only.\<close>

definition same_links :: "wm \<Rightarrow> wm \<Rightarrow> bool" where
  "same_links s s' \<longleftrightarrow>
     mon s' = mon s \<and> xerrorxlib s' = xerrorxlib s \<and> err s' = err s \<and>
     (\<forall>a. nogeom (heap s' a) = nogeom (heap s a))"

text \<open>Both slots of \<open>tagset\<close> are non-zero.\<close>

definition tagsets_nonzero :: "wm \<Rightarrow> bool" where
  "tagsets_nonzero s \<longleftrightarrow> tagset (mon s) 0 \<noteq> 0 \<and> tagset (mon s) 1 \<noteq> 0"

text \<open>
  The state after \<open>dwm_setup\<close> on a 1000 x 800 display, and the state after mapping
  two windows there: W1 (window 101, at address 1), then W2 (window 102, at address 2).
\<close>

definition startup_state :: wm where
  "startup_state = dwm_setup cfg0 1000 800"

definition two_clients :: "wm option" where
  "two_clients = manage cfg0 1 101 wa0 startup_state \<bind> manage cfg0 2 102 wa0"

text \<open>The clients \<open>nexttiled\<close> stops at.\<close>

definition tiled :: "wm \<Rightarrow> ptr \<Rightarrow> bool" where
  "tiled s c \<longleftrightarrow> isfloating (heap s c) = 0 \<and> ISVISIBLE s c"

definition hd_ptr :: "ptr list \<Rightarrow> ptr" where
  "hd_ptr cs = (case cs of [] \<Rightarrow> NULL | a # as \<Rightarrow> a)"

text \<open>
  A well-formed state: the client list and the stack end in \<open>NULL\<close>, fewer than
  \<open>2 ^ 32\<close> clients, \<open>sellt\<close> inside \<open>layouts\<close>, a non-negative width and a master
  fraction between 0 and 1. On these states \<open>arrange\<close> returns, and so do the
  commands that end in it and leave \<open>sellt\<close> alone.
\<close>

definition wellformed :: "wm \<Rightarrow> ptr list \<Rightarrow> ptr list \<Rightarrow> bool" where
  "wellformed s cl sl \<longleftrightarrow>
     client_list s (clients (mon s)) cl \<and> stack_list s (stack (mon s)) sl \<and>
     length cl < 2 ^ 32 \<and> unat (sellt (mon s)) < length layouts \<and>
     0 \<le>s ww (mon s) \<and> fle (Finite 0) (mfact (mon s)) \<and> fle (mfact (mon s)) (Finite 1)"

text \<open>The errors the specification lists as benign.\<close>

definition benign :: "XErrorEvent \<Rightarrow> bool" where
  "benign ee \<longleftrightarrow>
     error_code ee = BadWindow
     \<or> error_code ee = BadMatch \<and> request_code ee \<in> {X_SetInputFocus, X_ConfigureWindow}
     \<or> error_code ee = BadDrawable
         \<and> request_code ee \<in> {X_PolyText8, X_PolyFillRectangle, X_PolySegment, X_CopyArea}
     \<or> error_code ee = BadAccess \<and> request_code ee \<in> {X_GrabButton, X_GrabKey}"

text \<open>The last request sent, if any.\<close>

definition last_request :: "wm \<Rightarrow> xreq option" where
  "last_request s = (if xlog s = [] then None else Some (last (xlog s)))"

text \<open>
  What the specification says \<open>kill_client\<close> does; \<open>deletable\<close> are the windows that
  list \<open>WM_DELETE_WINDOW\<close> in their \<open>WM_PROTOCOLS\<close>.
\<close>

definition killclient_spec :: "Window list \<Rightarrow> wm \<Rightarrow> wm" where
  "killclient_spec deletable s =
     (if sel (mon s) = NULL then s
      else if win (heap s (sel (mon s))) \<in> set deletable
      then xsend (SendClientMessage (win (heap s (sel (mon s)))) ''WM_DELETE_WINDOW'') s
      else xsend (XKillClient (win (heap s (sel (mon s))))) s)"

text \<open>
  The master fraction the specification describes for an argument of \<open>set_mfact\<close>:
  absolute (the argument minus 1.0) for an argument of at least 1.0, else relative
  (added to the current fraction); as a \<open>float\<close>.
\<close>

definition mfact_request :: "cfloat \<Rightarrow> cfloat \<Rightarrow> cfloat" where
  "mfact_request current delta =
     double_to_float (if fle (Finite 1) delta then fsub float64 delta (Finite 1)
                      else fadd float32 current delta)"

text \<open>
  A cell \<open>(x, y, w, h)\<close> that \<open>resize\<close> accepts: its width and height are positive as
  C \<open>int\<close>s.
\<close>

definition cell_ok :: "u32 \<times> u32 \<times> u32 \<times> u32 \<Rightarrow> bool" where
  "cell_ok g = (case g of (x, y, w, h) \<Rightarrow> \<not> w \<le>s 0 \<and> \<not> h \<le>s 0)"

text \<open>
  The master width \<open>mw\<close> that \<open>tile\<close> computes for \<open>n\<close> tiled clients.
\<close>

definition master_width :: "Monitor \<Rightarrow> nat \<Rightarrow> u32 option" where
  "master_width m n =
     (if unat (nmaster m) < n
      then (if nmaster m \<noteq> 0
            then float_to_uint (fmul float32 (float32 (real_of_int (sint (ww m)))) (mfact m))
            else Some 0)
      else Some (ww m))"

text \<open>
  The cells the specification describes for the tiled clients, from client \<open>i\<close> on:
  the first \<open>min(n, nmaster)\<close> clients fill the master column at \<open>x = wx\<close> with width
  \<open>mw\<close> and row height \<open>(wh - consumed) / (min(n, nmaster) - i)\<close>, the others the stack
  column at \<open>x = wx + mw\<close> with width \<open>ww - mw\<close> and row height
  \<open>(wh - consumed) / (n - i)\<close>; \<open>2 * bw\<close> is taken off each width and height, and a row
  consumes its height. \<open>b\<close> gives the border width of a client.
\<close>

fun tile_cells ::
  "Monitor \<Rightarrow> (ptr \<Rightarrow> u32) \<Rightarrow> nat \<Rightarrow> u32 \<Rightarrow> nat \<Rightarrow> u32 \<Rightarrow> u32 \<Rightarrow> ptr list
   \<Rightarrow> (u32 \<times> u32 \<times> u32 \<times> u32) list" where
  "tile_cells m b n mw' i consumed_m consumed_s [] = []"
| "tile_cells m b n mw' i consumed_m consumed_s (c # cs) =
     (if i < min n (unat (nmaster m)) then
        let h = (wh m - consumed_m) div of_nat (min n (unat (nmaster m)) - i)
        in (wx m, wy m + consumed_m, mw' - 2 * b c, h - 2 * b c)
           # tile_cells m b n mw' (Suc i) (consumed_m + h) consumed_s cs
      else
        let h = (wh m - consumed_s) div of_nat (n - i)
        in (wx m + mw', wy m + consumed_s, ww m - mw' - 2 * b c, h - 2 * b c)
           # tile_cells m b n mw' (Suc i) consumed_m (consumed_s + h) cs)"

text \<open>
  The configuration with \<open>nmaster = k\<close>, and the states after mapping three windows
  (at addresses 1, 2 and 3, in this order) with \<open>nmaster = 2\<close> on a 1000 x 801 display
  and with \<open>nmaster = 3\<close> on a 1000 x 3 display.
\<close>

definition cfg_masters :: "u32 \<Rightarrow> config" where
  "cfg_masters k = cfg0\<lparr>cfg_nmaster := k\<rparr>"

definition three_clients :: "wm option" where
  "three_clients =
     manage (cfg_masters 2) 1 101 wa0 (dwm_setup (cfg_masters 2) 1000 801)
       \<bind> manage (cfg_masters 2) 2 102 wa0 \<bind> manage (cfg_masters 2) 3 103 wa0"


declare nexttiled.simps [code] first_visible.simps [code] showhide.simps [code]
  tile_count.simps [code] tile_loop.simps [code] monocle_count.simps [code]
  monocle_loop.simps [code] detach_loop.simps [code] detachstack_loop.simps [code]

section \<open>What arranging leaves alone\<close>

lemma same_links_refl: "same_links s s"
  by (simp add: same_links_def)

lemma same_links_trans: "same_links s s1 \<Longrightarrow> same_links s1 s2 \<Longrightarrow> same_links s s2"
  by (simp add: same_links_def)

lemma same_links_xsend: "same_links s (xsend r s)"
  by (simp add: same_links_def xsend_def)

lemma same_links_resize: "same_links s (resize c x y w h i s)"
  by (simp add: same_links_def resize_def configure_def xsend_def nogeom_def Let_def)

lemma same_links_fields:
  assumes "same_links s s'"
  shows "tags (heap s' a) = tags (heap s a)" "snext (heap s' a) = snext (heap s a)"
    "c_next (heap s' a) = c_next (heap s a)" "isfloating (heap s' a) = isfloating (heap s a)"
    "bw (heap s' a) = bw (heap s a)" "win (heap s' a) = win (heap s a)"
proof -
  from assms have "nogeom (heap s' a) = nogeom (heap s a)" by (simp add: same_links_def)
  then have e: "f (nogeom (heap s' a)) = f (nogeom (heap s a))" for f :: "Client \<Rightarrow> 'b" by simp
  show "tags (heap s' a) = tags (heap s a)" using e[of tags] by (simp add: nogeom_def)
  show "snext (heap s' a) = snext (heap s a)" using e[of snext] by (simp add: nogeom_def)
  show "c_next (heap s' a) = c_next (heap s a)" using e[of c_next] by (simp add: nogeom_def)
  show "isfloating (heap s' a) = isfloating (heap s a)"
    using e[of isfloating] by (simp add: nogeom_def)
  show "bw (heap s' a) = bw (heap s a)" using e[of bw] by (simp add: nogeom_def)
  show "win (heap s' a) = win (heap s a)" using e[of win] by (simp add: nogeom_def)
qed

lemma same_links_mon: "same_links s s' \<Longrightarrow> mon s' = mon s"
  by (simp add: same_links_def)

lemma showhide_links:
  assumes "showhide c s = Some s'"
  shows "same_links s s'"
proof (rule showhide.raw_induct[OF _ assms], goal_cases)
  case (1 f c s s')
  show ?case
  proof (cases "c = NULL")
    case True
    with 1(2) show ?thesis by (simp add: same_links_refl)
  next
    case False
    show ?thesis
    proof (cases "ISVISIBLE s c")
      case True
      with False 1(2) obtain s2 where
        a: "same_links s s2" and b: "f (snext (heap s2 c)) s2 = Some s'"
        by (auto simp: Let_def
            intro: same_links_trans same_links_xsend same_links_resize same_links_refl
            split: if_splits)
      from 1(1)[OF b] a show ?thesis by (rule same_links_trans[rotated])
    next
      case hidden: False
      with False 1(2) obtain s1 where
        a: "f (snext (heap s c)) s = Some s1"
        and b: "s' = xsend (XMoveWindow (win (heap s1 c)) (WIDTH s1 c * (- 2))
                            (c_y (heap s1 c))) s1"
        by (auto split: bind_splits)
      from 1(1)[OF a] b show ?thesis using same_links_xsend same_links_trans by blast
    qed
  qed
qed

lemma tile_loop_links:
  assumes "tile_loop n mw' c i my' ty s = Some s'"
  shows "same_links s s'"
proof (rule tile_loop.raw_induct[OF _ assms], goal_cases)
  case (1 f n mw' c i my' ty s s')
  show ?case
  proof (cases "c = NULL")
    case True
    with 1(2) show ?thesis by (simp add: same_links_refl)
  next
    case False
    with 1(2) obtain x y w h c' i' m' t' where
      "f n mw' c' i' m' t' (resize c x y w h 0 s) = Some s'"
      by (auto simp: Let_def split: if_splits bind_splits)
    from 1(1)[OF this] show ?thesis
      using same_links_resize same_links_trans by blast
  qed
qed

lemma monocle_loop_links:
  assumes "monocle_loop c s = Some s'"
  shows "same_links s s'"
proof (rule monocle_loop.raw_induct[OF _ assms], goal_cases)
  case (1 f c s s')
  show ?case
  proof (cases "c = NULL")
    case True
    with 1(2) show ?thesis by (simp add: same_links_refl)
  next
    case False
    with 1(2) obtain x y w h c' where
      "f c' (resize c x y w h 0 s) = Some s'"
      by (auto simp: Let_def split: if_splits bind_splits)
    from 1(1)[OF this] show ?thesis
      using same_links_resize same_links_trans by blast
  qed
qed

lemma tile_links: "tile s = Some s' \<Longrightarrow> same_links s s'"
  by (auto simp: tile_def same_links_refl split: bind_splits if_splits dest: tile_loop_links)

lemma monocle_links: "monocle s = Some s' \<Longrightarrow> same_links s s'"
  by (auto simp: monocle_def same_links_refl split: bind_splits if_splits
      dest: monocle_loop_links)

lemma arrange_links:
  assumes "arrange s = Some s'"
  shows "same_links s s'"
proof -
  from assms obtain s1 where a: "showhide (stack (mon s)) s = Some s1"
    and b: "s' = s1 \<or> tile s1 = Some s' \<or> monocle s1 = Some s'"
    by (auto simp: arrange_def restack_def
        split: bind_splits if_splits option.splits arrange_fn.splits)
  from b have "same_links s1 s'"
    using same_links_refl tile_links monocle_links by blast
  with showhide_links[OF a] show ?thesis by (rule same_links_trans)
qed

lemma focus_result:
  "focus c s = Some s' \<Longrightarrow> s' = s\<lparr>mon := (mon s)\<lparr>sel := sel (mon s')\<rparr>\<rparr>"
  by (auto simp: focus_def split: bind_splits)

text \<open>Focusing and then arranging changes \<open>sel\<close>, client geometry and requests only.\<close>

lemma focus_arrange_mon:
  assumes "focus c s = Some s1" "arrange s1 = Some s'"
  shows "mon s' = (mon s)\<lparr>sel := sel (mon s')\<rparr>"
    and "tags (heap s' a) = tags (heap s a)"
    and "xerrorxlib s' = xerrorxlib s"
proof -
  from focus_result[OF assms(1)] have m1: "mon s1 = (mon s)\<lparr>sel := sel (mon s1)\<rparr>"
    and h1: "heap s1 = heap s" and x1: "xerrorxlib s1 = xerrorxlib s"
    by (metis wm.select_convs(1) wm.surjective wm.update_convs(1),
        metis wm.select_convs(2) wm.surjective wm.update_convs(1),
        metis wm.select_convs(3) wm.surjective wm.update_convs(1))
  note l = arrange_links[OF assms(2)]
  from same_links_mon[OF l] m1 show "mon s' = (mon s)\<lparr>sel := sel (mon s')\<rparr>"
    by (metis Monitor.select_convs(17) Monitor.surjective Monitor.update_convs(17))
  from same_links_fields(1)[OF l] h1 show "tags (heap s' a) = tags (heap s a)" by simp
  from l x1 show "xerrorxlib s' = xerrorxlib s" by (simp add: same_links_def)
qed

section \<open>Linked lists\<close>

lemma client_list_cong:
  "(\<And>a. a \<in> set as \<Longrightarrow> c_next (heap s' a) = c_next (heap s a)) \<Longrightarrow>
   client_list s' p as = client_list s p as"
  by (induction as arbitrary: p) auto

lemma stack_list_cong:
  "(\<And>a. a \<in> set as \<Longrightarrow> snext (heap s' a) = snext (heap s a)) \<Longrightarrow>
   stack_list s' p as = stack_list s p as"
  by (induction as arbitrary: p) auto

lemma list_frame:
  "client_list (s\<lparr>mon := m\<rparr>) p as = client_list s p as"
  "stack_list (s\<lparr>mon := m\<rparr>) p as = stack_list s p as"
  "client_list (s\<lparr>heap := (heap s)(a := (heap s a)\<lparr>tags := t\<rparr>)\<rparr>) p as = client_list s p as"
  "stack_list (s\<lparr>heap := (heap s)(a := (heap s a)\<lparr>tags := t\<rparr>)\<rparr>) p as = stack_list s p as"
  by (rule client_list_cong stack_list_cong; simp)+

lemma same_links_lists:
  assumes "same_links s s'"
  shows "client_list s' p as = client_list s p as" "stack_list s' p as = stack_list s p as"
    "tiled s' = tiled s" "ISVISIBLE s' = ISVISIBLE s"
  using same_links_fields[OF assms] same_links_mon[OF assms]
  by (auto intro!: client_list_cong stack_list_cong simp: tiled_def ISVISIBLE_def fun_eq_iff)

lemma stack_list_unique: "stack_list s p as \<Longrightarrow> stack_list s p bs \<Longrightarrow> as = bs"
proof (induction as arbitrary: p bs)
  case Nil
  then show ?case by (cases bs) auto
next
  case (Cons a as)
  then show ?case by (cases bs) auto
qed

lemma stack_list_suffix:
  "stack_list s p (as @ b # bs) \<Longrightarrow> stack_list s b (b # bs)"
  by (induction as arbitrary: p) auto

lemma stack_list_head_notin:
  assumes "stack_list s (snext (heap s a)) as" "a \<noteq> NULL"
  shows "a \<notin> set as"
proof
  assume "a \<in> set as"
  then obtain bs cs where as: "as = bs @ a # cs" by (auto simp: in_set_conv_decomp)
  with assms(1) have "stack_list s a (a # cs)" by (auto dest: stack_list_suffix)
  moreover from assms have "stack_list s a (a # as)" by simp
  ultimately have "a # cs = a # as" by (rule stack_list_unique)
  with as show False by simp
qed

lemma stack_list_distinct: "stack_list s p as \<Longrightarrow> distinct as"
  by (induction as arbitrary: p) (auto dest: stack_list_head_notin)

lemma first_visible_list:
  "stack_list s p as \<Longrightarrow> first_visible s p = Some (first_visible_of s as)"
proof (induction as arbitrary: p)
  case Nil
  then show ?case by (simp add: first_visible.simps first_visible_of_def)
next
  case (Cons a as)
  then show ?case by (subst first_visible.simps) (auto simp: first_visible_of_def)
qed

lemma nexttiled_list:
  "client_list s p cl \<Longrightarrow>
   \<exists>cl'. nexttiled s p = Some (hd_ptr cl') \<and> client_list s (hd_ptr cl') cl' \<and>
         filter (tiled s) cl' = filter (tiled s) cl \<and> (cl' = [] \<or> tiled s (hd cl')) \<and>
         length cl' \<le> length cl"
proof (induction cl arbitrary: p)
  case Nil
  then have "nexttiled s p = Some NULL" by (subst nexttiled.simps) simp
  then show ?case by (intro exI[of _ "[]"]) (simp add: hd_ptr_def)
next
  case (Cons a as)
  then have p: "p = a" "a \<noteq> NULL" and tl: "client_list s (c_next (heap s a)) as" by auto
  show ?case
  proof (cases "tiled s a")
    case True
    then have "nexttiled s p = Some a"
      using p by (subst nexttiled.simps) (simp add: tiled_def)
    with Cons.prems True p show ?thesis
      by (intro exI[of _ "a # as"]) (simp add: hd_ptr_def)
  next
    case False
    then have "nexttiled s p = nexttiled s (c_next (heap s a))"
      using p by (subst nexttiled.simps) (auto simp: tiled_def)
    with Cons.IH[OF tl] False show ?thesis by auto
  qed
qed

lemma detachstack_loop_list:
  assumes "stack_list s (read_slot s tc) cs" "c \<in> set cs"
    and "tc = StackHead \<or> (\<exists>a. tc = SnextOf a \<and> a \<notin> set cs)"
  shows "\<exists>tc'. detachstack_loop s c tc = Some tc' \<and>
           (tc' = tc \<or> (\<exists>y\<in>set cs. tc' = SnextOf y)) \<and>
           stack_list (write_slot tc' (snext (heap s c)) s)
             (read_slot (write_slot tc' (snext (heap s c)) s) tc) (remove1 c cs)"
  using assms
proof (induction cs arbitrary: tc)
  case Nil
  then show ?case by simp
next
  case (Cons x xs)
  let ?v = "snext (heap s c)"
  from Cons.prems(1) have hd: "read_slot s tc = x" "x \<noteq> NULL"
    and tl: "stack_list s (snext (heap s x)) xs" by auto
  from Cons.prems(1) have dist: "distinct (x # xs)" by (rule stack_list_distinct)
  show ?case
  proof (cases "x = c")
    case True
    have loop: "detachstack_loop s c tc = Some tc"
      using hd True by (subst detachstack_loop.simps) simp
    have "stack_list (write_slot tc ?v s) ?v xs = stack_list s ?v xs"
      using Cons.prems(3) by (intro stack_list_cong) auto
    moreover have "read_slot (write_slot tc ?v s) tc = ?v"
      using Cons.prems(3) by auto
    ultimately show ?thesis using loop tl True by auto
  next
    case False
    with Cons.prems(2) have cin: "c \<in> set xs" by simp
    have loop: "detachstack_loop s c tc = detachstack_loop s c (SnextOf x)"
      using hd False by (subst detachstack_loop.simps) simp
    from dist have "x \<notin> set xs" by simp
    with Cons.IH[of "SnextOf x"] tl cin obtain tc' where
      l: "detachstack_loop s c (SnextOf x) = Some tc'"
      and w: "tc' = SnextOf x \<or> (\<exists>y\<in>set xs. tc' = SnextOf y)"
      and r: "stack_list (write_slot tc' ?v s) (read_slot (write_slot tc' ?v s) (SnextOf x))
                (remove1 c xs)"
      by auto
    from w Cons.prems(3) have ne: "tc' \<noteq> tc" by auto
    with w hd have "read_slot (write_slot tc' ?v s) tc = x"
      using Cons.prems(3) by (cases tc) (auto split: if_splits)
    with r hd False w have "stack_list (write_slot tc' ?v s) (read_slot (write_slot tc' ?v s) tc)
                (remove1 c (x # xs))"
      by auto
    with loop l w show ?thesis by auto
  qed
qed

section \<open>Rounding keeps bounds\<close>

lemma float_exp_up_le: "x < 2 ^ Suc k \<Longrightarrow> float_exp_up x \<le> int k"
proof (induction k arbitrary: x)
  case 0
  then show ?case by simp
next
  case (Suc k)
  show ?case
  proof (cases "x < 2")
    case True
    then show ?thesis by simp
  next
    case False
    from Suc.prems have "x / 2 < 2 ^ Suc k" by simp
    from Suc.IH[OF this] False show ?thesis by (subst float_exp_up.simps) simp
  qed
qed

lemma float_exp_down_le: "float_exp_down n x \<le> 0"
proof (induction n arbitrary: x)
  case 0
  then show ?case by simp
next
  case (Suc n)
  from Suc[of "2 * x"] show ?case by simp
qed

lemma round_even_le: "y \<le> of_int m \<Longrightarrow> round_even y \<le> m"
proof -
  assume a: "y \<le> of_int m"
  then have f: "\<lfloor>y\<rfloor> \<le> m" by (simp add: floor_le_iff)
  show ?thesis
  proof (cases "\<lfloor>y\<rfloor> = m")
    case True
    with a have "y - of_int \<lfloor>y\<rfloor> \<le> 0" by simp
    then have "y - of_int \<lfloor>y\<rfloor> < 1 / 2" by linarith
    with True show ?thesis by (simp add: round_even_def Let_def)
  next
    case False
    with f have "\<lfloor>y\<rfloor> + 1 \<le> m" by simp
    then show ?thesis by (auto simp: round_even_def Let_def)
  qed
qed

lemma round_even_nonneg: "0 \<le> y \<Longrightarrow> 0 \<le> round_even y"
  by (auto simp: round_even_def Let_def)

lemma round_float_bounds:
  assumes "0 \<le> x" and "x \<le> 2 ^ k" and "1 \<le> p"
  shows "0 \<le> round_float p emin x \<and> round_float p emin x \<le> 2 ^ k"
proof (cases "x = 0")
  case True
  then show ?thesis by (simp add: round_float_def)
next
  case False
  with assms(1) have pos: "0 < x" by simp
  define e where "e = (if 1 \<le> x then float_exp_up x else float_exp_down emin x)"
  define q where "q = e - (int p - 1)"
  define u :: real where "u = 2 powi q"
  from assms(2) have "x < 2 ^ Suc k" by (simp add: order_le_less_trans)
  then have "e \<le> int k"
    using float_exp_up_le[of x k] float_exp_down_le[of emin x] by (auto simp: e_def intro: order_trans)
  with assms(3) have qk: "q \<le> int k" by (simp add: q_def)
  have u0: "0 < u" by (simp add: u_def)
  have r: "round_float p emin x = of_int (round_even (x / u)) * u"
    using pos by (simp add: round_float_def Let_def e_def q_def u_def)
  have "2 ^ k = (2 :: real) powi (int k - q) * u"
    unfolding u_def by (simp flip: power_int_add)
  also have "(2 :: real) powi (int k - q) = of_int (2 ^ nat (int k - q))"
    using qk by (simp add: power_int_def)
  finally have k: "(2 :: real) ^ k = of_int (2 ^ nat (int k - q)) * u" .
  with assms(2) u0 have "x / u \<le> of_int (2 ^ nat (int k - q))"
    by (simp add: field_simps)
  then have "round_even (x / u) \<le> 2 ^ nat (int k - q)" by (rule round_even_le)
  then have "of_int (round_even (x / u)) * u \<le> of_int (2 ^ nat (int k - q)) * u"
    using u0 by (simp del: of_int_power)
  moreover have "0 \<le> round_even (x / u)"
    using pos u0 by (intro round_even_nonneg) simp
  ultimately show ?thesis using r k u0 by simp
qed

lemma fadd_commute: "fadd R x y = fadd R y x"
  by (cases x; cases y) (simp_all add: add.commute)

lemma float32_finite:
  assumes "0 \<le> x" "x \<le> 2 ^ k" "k \<le> 127"
  shows "float32 x = Finite (round32 x)" "0 \<le> round32 x" "round32 x \<le> 2 ^ k"
proof -
  from round_float_bounds[OF assms(1,2), of 24 126]
  show r: "0 \<le> round32 x" "round32 x \<le> 2 ^ k" by (simp_all add: round32_def)
  have "(2 :: real) ^ k \<le> 2 ^ 127" using assms(3) by (intro power_increasing) simp_all
  also have "\<dots> < 2 ^ 128" by simp
  finally have "round32 x < 2 ^ 128" using r(2) by linarith
  with r(1) show "float32 x = Finite (round32 x)" by (simp add: float32_def overflow_def)
qed

lemma float_constants:
  "float64 (1 / 10) = Finite (3602879701896397 / 36028797018963968)"
  "float64 (9 / 10) = Finite (8106479329266893 / 9007199254740992)"
  "double_to_float (float64 (55 / 100)) = Finite (9227469 / 16777216)"
  by code_simp+


lemma fraction_cases:
  assumes "fle (Finite 0) x" "fle x (Finite 1)"
  obtains m where "x = Finite m" "0 \<le> m" "m \<le> 1"
  using assms by (cases x) auto

section \<open>Termination on well-formed states\<close>

lemma tile_count_list:
  "client_list s c cl \<Longrightarrow> cl = [] \<or> tiled s (hd cl) \<Longrightarrow>
   tile_count s c n = Some (n + of_nat (length (filter (tiled s) cl)))"
proof (induction "length cl" arbitrary: cl c n rule: less_induct)
  case less
  show ?case
  proof (cases cl)
    case Nil
    with less.prems show ?thesis by (subst tile_count.simps) simp
  next
    case (Cons a as)
    with less.prems have c: "c = a" "a \<noteq> NULL" "tiled s a"
      and tl: "client_list s (c_next (heap s a)) as" by auto
    from nexttiled_list[OF tl] obtain cl' where
      n: "nexttiled s (c_next (heap s a)) = Some (hd_ptr cl')"
      and l: "client_list s (hd_ptr cl') cl'"
      and f: "filter (tiled s) cl' = filter (tiled s) as"
      and h: "cl' = [] \<or> tiled s (hd cl')" and le: "length cl' \<le> length as"
      by blast
    from le Cons have "length cl' < length cl" by simp
    from less.hyps[OF this l h, of "n + 1"] f
    have "tile_count s (hd_ptr cl') (n + 1) = Some (n + 1 + of_nat (length (filter (tiled s) as)))"
      by simp
    with n c Cons show ?thesis by (subst tile_count.simps) simp
  qed
qed

lemma tile_loop_total:
  "client_list s c cl \<Longrightarrow> cl = [] \<or> tiled s (hd cl) \<Longrightarrow>
   n - i = of_nat (length (filter (tiled s) cl)) \<Longrightarrow> length cl < 2 ^ 32 \<Longrightarrow>
   \<exists>s'. tile_loop n mw' c i my' ty s = Some s'"
proof (induction "length cl" arbitrary: cl c i my' ty s rule: less_induct)
  case less
  show ?case
  proof (cases cl)
    case Nil
    with less.prems show ?thesis by (subst tile_loop.simps) simp
  next
    case (Cons a as)
    with less.prems have c: "c = a" "a \<noteq> NULL" "tiled s a"
      and tl: "client_list s (c_next (heap s a)) as" by auto
    let ?k = "length (filter (tiled s) as)"
    have "?k \<le> length as" by (rule length_filter_le)
    moreover have "Suc (length as) < 2 ^ 32" using less.prems(4) Cons by simp
    ultimately have k: "Suc ?k < 2 ^ 32" by linarith
    from less.prems(3) Cons c have ni: "n - i = of_nat (Suc ?k)" by simp
    then have d1: "n - i \<noteq> 0"
      using of_nat_neq_0[of "Suc ?k", where 'a = 32] k by simp
    have d2: "i < nmaster (mon s) \<Longrightarrow> nmaster (mon s) - i \<noteq> 0" by auto
    have step: "\<exists>s'. (nexttiled s1 (c_next (heap s1 a)) \<bind>
                       (\<lambda>c'. tile_loop n mw' c' (i + 1) m' t' s1)) = Some s'"
      if sl: "same_links s s1" for s1 m' t'
    proof -
      note same_links_lists[OF sl] same_links_fields[OF sl]
      then have tl1: "client_list s1 (c_next (heap s1 a)) as" and t1: "tiled s1 = tiled s"
        using tl by simp_all
      from nexttiled_list[OF tl1] obtain cl' where
        n: "nexttiled s1 (c_next (heap s1 a)) = Some (hd_ptr cl')"
        and l: "client_list s1 (hd_ptr cl') cl'"
        and f: "filter (tiled s1) cl' = filter (tiled s1) as"
        and h: "cl' = [] \<or> tiled s1 (hd cl')" and le: "length cl' \<le> length as"
        by blast
      from le Cons have lt: "length cl' < length cl" by simp
      from ni have "n - (i + 1) = of_nat ?k" by (simp add: algebra_simps)
      then have "n - (i + 1) = of_nat (length (filter (tiled s1) cl'))"
        using f t1 by simp
      from less.hyps[OF lt l h this] lt less.prems(4)
      obtain s' where "tile_loop n mw' (hd_ptr cl') (i + 1) m' t' s1 = Some s'" by auto
      with n show ?thesis by simp
    qed
    show ?thesis
      using c d1 d2 step[OF same_links_resize]
      by (subst tile_loop.simps) (auto simp: Let_def)
  qed
qed

lemma float_to_uint_total:
  assumes "0 \<le>s w" "fle (Finite 0) f" "fle f (Finite 1)"
  shows "\<exists>u. float_to_uint (fmul float32 (float32 (real_of_int (sint (w :: u32)))) f) = Some u"
proof -
  from assms(2,3) obtain m where f: "f = Finite m" and m: "0 \<le> m" "m \<le> 1"
    by (rule fraction_cases)
  let ?x = "real_of_int (sint w)"
  from assms(1) have w0: "0 \<le> sint w" by (simp add: word_sle_eq)
  then have x0: "0 \<le> ?x" by (rule of_int_0_le_iff[THEN iffD2])
  have "sint w \<le> 2 ^ 31" using sint_lt[of w] by simp
  then have "?x \<le> real_of_int (2 ^ 31)" by (rule of_int_le_iff[THEN iffD2])
  then have x1: "?x \<le> 2 ^ 31" by simp
  have k: "(31 :: nat) \<le> 127" by simp
  note r = float32_finite[OF x0 x1 k]
  from r(2) m(1) have y0: "0 \<le> round32 ?x * m" by (rule mult_nonneg_nonneg)
  have "round32 ?x * m \<le> round32 ?x * 1" using m(2) r(2) by (rule mult_left_mono)
  with r(3) have y1: "round32 ?x * m \<le> 2 ^ 31" by simp
  note z = float32_finite[OF y0 y1 k]
  from z(3) have "\<lfloor>round32 (round32 ?x * m)\<rfloor> \<le> \<lfloor>(2 :: real) ^ 31\<rfloor>" by (rule floor_mono)
  also have "\<dots> < (2 ^ 32 :: int)" by simp
  finally have "\<lfloor>round32 (round32 ?x * m)\<rfloor> < 2 ^ 32" .
  with z(2) have "\<exists>u. float_to_uint (Finite (round32 (round32 ?x * m))) = Some u" by simp
  then show ?thesis unfolding f r(1) fmul.simps z(1) .
qed

lemma tile_total:
  assumes "client_list s (clients (mon s)) cl" "length cl < 2 ^ 32"
    and "0 \<le>s ww (mon s)" "fle (Finite 0) (mfact (mon s))" "fle (mfact (mon s)) (Finite 1)"
  shows "\<exists>s'. tile s = Some s'"
proof -
  from nexttiled_list[OF assms(1)] obtain cl' where
    n: "nexttiled s (clients (mon s)) = Some (hd_ptr cl')"
    and l: "client_list s (hd_ptr cl') cl'"
    and h: "cl' = [] \<or> tiled s (hd cl')" and le: "length cl' \<le> length cl"
    by blast
  let ?n = "of_nat (length (filter (tiled s) cl')) :: u32"
  have cnt: "tile_count s (hd_ptr cl') 0 = Some ?n"
    using tile_count_list[OF l h, of 0] by simp
  from le assms(2) have len: "length cl' < 2 ^ 32" by simp
  have loop: "\<exists>s'. tile_loop ?n mw' (hd_ptr cl') 0 0 0 s = Some s'" for mw'
    using tile_loop_total[OF l h _ len, of ?n 0] by simp
  from float_to_uint_total[OF assms(3,4,5)] obtain u where
    u: "float_to_uint (fmul float32 (float32 (real_of_int (sint (ww (mon s))))) (mfact (mon s)))
          = Some u" by blast
  show ?thesis
    using n cnt u loop by (auto simp: tile_def)
qed

lemma showhide_total:
  "stack_list s p sl \<Longrightarrow> \<exists>s'. showhide p s = Some s'"
proof (induction sl arbitrary: p s)
  case Nil
  then show ?case by (subst showhide.simps) simp
next
  case (Cons a as)
  then have p: "p = a" "a \<noteq> NULL" and tl: "stack_list s (snext (heap s a)) as" by auto
  have next_ok: "\<exists>s'. showhide (snext (heap s1 a)) s1 = Some s'" if "same_links s s1" for s1
    using Cons.IH[of s1 "snext (heap s1 a)"] tl same_links_lists(2)[OF that]
      same_links_fields(2)[OF that] by simp
  show ?case
  proof (cases "ISVISIBLE s a")
    case True
    let ?s1 = "xsend (XMoveWindow (win (heap s a)) (c_x (heap s a)) (c_y (heap s a))) s"
    have l1: "same_links s ?s1" by (rule same_links_xsend)
    have l2: "same_links s (resize a x y w h 0 ?s1)" for x y w h
      using l1 same_links_resize by (rule same_links_trans)
    show ?thesis
      using p True next_ok[OF l1] next_ok[OF l2]
      by (subst showhide.simps) (simp add: Let_def)
  next
    case False
    from next_ok[OF same_links_refl] obtain s1 where
      "showhide (snext (heap s a)) s = Some s1" by blast
    with p False show ?thesis by (subst showhide.simps) simp
  qed
qed

lemma monocle_count_total:
  "client_list s c cl \<Longrightarrow> \<exists>m. monocle_count s c n = Some m"
proof (induction cl arbitrary: c n)
  case Nil
  then show ?case by (subst monocle_count.simps) simp
next
  case (Cons a as)
  then have c: "c = a" "a \<noteq> NULL" and tl: "client_list s (c_next (heap s a)) as" by auto
  from Cons.IH[OF tl] c show ?case by (subst monocle_count.simps) simp
qed

lemma monocle_loop_total:
  "client_list s c cl \<Longrightarrow> \<exists>s'. monocle_loop c s = Some s'"
proof (induction "length cl" arbitrary: cl c s rule: less_induct)
  case less
  show ?case
  proof (cases cl)
    case Nil
    with less.prems show ?thesis by (subst monocle_loop.simps) simp
  next
    case (Cons a as)
    with less.prems have c: "c = a" "a \<noteq> NULL"
      and tl: "client_list s (c_next (heap s a)) as" by auto
    have step: "\<exists>s'. (nexttiled s1 (c_next (heap s1 a)) \<bind> (\<lambda>c'. monocle_loop c' s1)) = Some s'"
      if sl: "same_links s s1" for s1
    proof -
      note same_links_lists[OF sl] same_links_fields[OF sl]
      then have tl1: "client_list s1 (c_next (heap s1 a)) as" using tl by simp
      from nexttiled_list[OF tl1] obtain cl' where
        n: "nexttiled s1 (c_next (heap s1 a)) = Some (hd_ptr cl')"
        and l: "client_list s1 (hd_ptr cl') cl'" and le: "length cl' \<le> length as"
        by blast
      from le Cons have lt: "length cl' < length cl" by simp
      from less.hyps[OF lt l] obtain s' where "monocle_loop (hd_ptr cl') s1 = Some s'" by auto
      with n show ?thesis by simp
    qed
    show ?thesis
      using c step[OF same_links_resize]
      by (subst monocle_loop.simps) (auto simp: Let_def)
  qed
qed

lemma monocle_total:
  assumes "client_list s (clients (mon s)) cl"
  shows "\<exists>s'. monocle s = Some s'"
proof -
  from monocle_count_total[OF assms] obtain m where
    m: "monocle_count s (clients (mon s)) 0 = Some m" by blast
  from nexttiled_list[OF assms] obtain cl' where
    n: "nexttiled s (clients (mon s)) = Some (hd_ptr cl')"
    and l: "client_list s (hd_ptr cl') cl'" by blast
  from monocle_loop_total[OF l] n m show ?thesis by (auto simp: monocle_def)
qed

lemma same_links_wellformed:
  "same_links s s' \<Longrightarrow> wellformed s' cl sl = wellformed s cl sl"
  using same_links_lists(1,2)[of s s'] same_links_mon[of s s'] by (simp add: wellformed_def)

lemma arrange_total:
  assumes "wellformed s cl sl"
  shows "\<exists>s'. arrange s = Some s' \<and> wellformed s' cl sl"
proof -
  from assms have sl: "stack_list s (stack (mon s)) sl" by (simp add: wellformed_def)
  from showhide_total[OF sl] obtain s1 where s1: "showhide (stack (mon s)) s = Some s1" by blast
  note l1 = showhide_links[OF s1]
  from assms same_links_wellformed[OF l1] have w1: "wellformed s1 cl sl" by simp
  then have cl: "client_list s1 (clients (mon s1)) cl" "length cl < 2 ^ 32"
    "0 \<le>s ww (mon s1)" "fle (Finite 0) (mfact (mon s1))" "fle (mfact (mon s1)) (Finite 1)"
    and lt: "unat (sellt (mon s1)) < length layouts"
    by (simp_all add: wellformed_def)
  from tile_total[OF cl] obtain st where st: "tile s1 = Some st" by blast
  from monocle_total[OF cl(1)] obtain sm where sm: "monocle s1 = Some sm" by blast
  have "\<exists>s2. (case snd (layouts ! unat (sellt (mon s1))) of
                None \<Rightarrow> Some s1 | Some Tile \<Rightarrow> tile s1 | Some Monocle \<Rightarrow> monocle s1) = Some s2"
    using st sm by (auto split: option.splits arrange_fn.splits)
  with s1 lt obtain s' where a: "arrange s = Some s'"
    by (auto simp: arrange_def)
  from w1 same_links_wellformed[OF arrange_links[OF a]] assms a show ?thesis
    using same_links_wellformed[OF l1] by simp
qed

lemma focus_total:
  assumes "stack_list s (stack (mon s)) sl"
  shows "\<exists>t. focus c s = Some (s\<lparr>mon := (mon s)\<lparr>sel := t\<rparr>\<rparr>)"
  using first_visible_list[OF assms] by (auto simp: focus_def)

lemma focus_arrange_total:
  assumes "wellformed s cl sl"
  shows "\<exists>s1 s'. focus c s = Some s1 \<and> arrange s1 = Some s' \<and> wellformed s' cl sl"
proof -
  from assms have "stack_list s (stack (mon s)) sl" by (simp add: wellformed_def)
  from focus_total[OF this] obtain t where
    f: "focus c s = Some (s\<lparr>mon := (mon s)\<lparr>sel := t\<rparr>\<rparr>)" by blast
  from assms have "wellformed (s\<lparr>mon := (mon s)\<lparr>sel := t\<rparr>\<rparr>) cl sl"
    by (simp add: wellformed_def list_frame)
  from arrange_total[OF this] f show ?thesis by blast
qed

lemma focus_arrange_bind:
  assumes "wellformed s cl sl"
  shows "\<exists>s'. (focus c s \<bind> arrange) = Some s' \<and> wellformed s' cl sl"
  using focus_arrange_total[OF assms, of c] by auto

lemma view_total:
  assumes "wellformed s cl sl"
  shows "\<exists>s'. view cfg ui s = Some s' \<and> wellformed s' cl sl"
proof (cases "ui AND TAGMASK cfg = tagset (mon s) (seltags (mon s))")
  case True
  with assms show ?thesis by (simp add: view_def)
next
  case False
  let ?m1 = "(mon s)\<lparr>seltags := seltags (mon s) XOR 1\<rparr>"
  let ?m2 = "if ui AND TAGMASK cfg \<noteq> 0
             then ?m1\<lparr>tagset := (tagset ?m1)(seltags ?m1 := ui AND TAGMASK cfg)\<rparr> else ?m1"
  from assms have "wellformed (s\<lparr>mon := ?m2\<rparr>) cl sl"
    by (simp add: wellformed_def list_frame)
  from focus_arrange_bind[OF this, of NULL] False show ?thesis
    by (simp add: view_def Let_def)
qed

lemma toggleview_total:
  assumes "wellformed s cl sl"
  shows "\<exists>s'. toggleview cfg ui s = Some s' \<and> wellformed s' cl sl"
proof -
  let ?n = "tagset (mon s) (seltags (mon s)) XOR (ui AND TAGMASK cfg)"
  let ?s0 = "s\<lparr>mon := (mon s)\<lparr>tagset := (tagset (mon s))(seltags (mon s) := ?n)\<rparr>\<rparr>"
  have "wellformed ?s0 cl sl"
    using assms by (simp add: wellformed_def list_frame)
  from focus_arrange_bind[OF this, of NULL] assms show ?thesis
    by (simp add: toggleview_def Let_def)
qed

lemma toggletag_total:
  assumes "wellformed s cl sl"
  shows "\<exists>s'. toggletag cfg ui s = Some s' \<and> wellformed s' cl sl"
proof -
  let ?n = "tags (heap s (sel (mon s))) XOR (ui AND TAGMASK cfg)"
  let ?s0 = "s\<lparr>heap := (heap s)(sel (mon s) := (heap s (sel (mon s)))\<lparr>tags := ?n\<rparr>)\<rparr>"
  have "wellformed ?s0 cl sl"
    using assms by (simp add: wellformed_def list_frame)
  from focus_arrange_bind[OF this, of NULL] assms show ?thesis
    by (simp add: toggletag_def Let_def)
qed

lemma tag_total:
  assumes "wellformed s cl sl"
  shows "\<exists>s'. tag cfg ui s = Some s' \<and> wellformed s' cl sl"
proof -
  let ?s0 = "s\<lparr>heap := (heap s)(sel (mon s) :=
               (heap s (sel (mon s)))\<lparr>tags := ui AND TAGMASK cfg\<rparr>)\<rparr>"
  have "wellformed ?s0 cl sl"
    using assms by (simp add: wellformed_def list_frame)
  from focus_arrange_bind[OF this, of NULL] assms show ?thesis
    by (simp add: tag_def)
qed

section \<open>The cells of the tile layout\<close>

lemma client_list_unique: "client_list s p as \<Longrightarrow> client_list s p bs \<Longrightarrow> as = bs"
proof (induction as arbitrary: p bs)
  case Nil
  then show ?case by (cases bs) auto
next
  case (Cons a as)
  then show ?case by (cases bs) auto
qed

lemma client_list_suffix:
  "client_list s p (as @ b # bs) \<Longrightarrow> client_list s b (b # bs)"
  by (induction as arbitrary: p) auto

lemma client_list_head_notin:
  assumes "client_list s (c_next (heap s a)) as" "a \<noteq> NULL"
  shows "a \<notin> set as"
proof
  assume "a \<in> set as"
  then obtain bs cs where as: "as = bs @ a # cs" by (auto simp: in_set_conv_decomp)
  with assms(1) have "client_list s a (a # cs)" by (auto dest: client_list_suffix)
  moreover from assms have "client_list s a (a # as)" by simp
  ultimately have "a # cs = a # as" by (rule client_list_unique)
  with as show False by simp
qed

lemma client_list_distinct: "client_list s p as \<Longrightarrow> distinct as"
  by (induction as arbitrary: p) (auto dest: client_list_head_notin)

lemma nexttiled_subset:
  "client_list s p cl \<Longrightarrow>
   \<exists>cl'. nexttiled s p = Some (hd_ptr cl') \<and> client_list s (hd_ptr cl') cl' \<and>
         filter (tiled s) cl' = filter (tiled s) cl \<and> (cl' = [] \<or> tiled s (hd cl')) \<and>
         length cl' \<le> length cl \<and> set cl' \<subseteq> set cl"
proof (induction cl arbitrary: p)
  case Nil
  then have "nexttiled s p = Some NULL" by (subst nexttiled.simps) simp
  then show ?case by (intro exI[of _ "[]"]) (simp add: hd_ptr_def)
next
  case (Cons a as)
  then have p: "p = a" "a \<noteq> NULL" and tl: "client_list s (c_next (heap s a)) as" by auto
  show ?case
  proof (cases "tiled s a")
    case True
    then have "nexttiled s p = Some a"
      using p by (subst nexttiled.simps) (simp add: tiled_def)
    with Cons.prems True p show ?thesis
      by (intro exI[of _ "a # as"]) (simp add: hd_ptr_def)
  next
    case False
    then have "nexttiled s p = nexttiled s (c_next (heap s a))"
      using p by (subst nexttiled.simps) (auto simp: tiled_def)
    with Cons.IH[OF tl] False show ?thesis by auto
  qed
qed

lemma of_nat_less_u32:
  "i < 2 ^ 32 \<Longrightarrow> (of_nat i :: u32) < w \<longleftrightarrow> i < unat w"
  by (simp add: word_less_nat_alt unat_of_nat)

lemma of_nat_diff_u32:
  "i \<le> k \<Longrightarrow> (of_nat k :: u32) - of_nat i = of_nat (k - i)"
  by simp

lemma of_nat_nonzero_u32: "0 < k \<Longrightarrow> k < 2 ^ 32 \<Longrightarrow> (of_nat k :: u32) \<noteq> 0"
  using of_nat_neq_0[of k, where 'a = 32] by simp

lemma tile_loop_step:
  assumes "c \<noteq> NULL" and "i < n" and "n < 2 ^ 32"
  shows "tile_loop (of_nat n) mw' c (of_nat i) my' ty s =
     (if i < min n (unat (nmaster (mon s))) then
        let h = (wh (mon s) - my') div of_nat (min n (unat (nmaster (mon s))) - i);
            s1 = resize c (wx (mon s)) (wy (mon s) + my') (mw' - 2 * bw (heap s c))
                   (h - 2 * bw (heap s c)) 0 s
        in nexttiled s1 (c_next (heap s1 c)) \<bind>
           (\<lambda>c'. tile_loop (of_nat n) mw' c' (of_nat i + 1) (my' + HEIGHT s1 c) ty s1)
      else
        let h = (wh (mon s) - ty) div of_nat (n - i);
            s1 = resize c (wx (mon s) + mw') (wy (mon s) + ty)
                   (ww (mon s) - mw' - 2 * bw (heap s c)) (h - 2 * bw (heap s c)) 0 s
        in nexttiled s1 (c_next (heap s1 c)) \<bind>
           (\<lambda>c'. tile_loop (of_nat n) mw' c' (of_nat i + 1) my' (ty + HEIGHT s1 c) s1))"
proof -
  let ?nm = "nmaster (mon s)"
  from assms have i32: "i < 2 ^ 32" by simp
  have lt: "(of_nat i :: u32) < ?nm \<longleftrightarrow> i < unat ?nm"
    using i32 by (rule of_nat_less_u32)
  have ltn: "(of_nat n :: u32) < ?nm \<longleftrightarrow> n < unat ?nm"
    using assms(3) by (rule of_nat_less_u32)
  have m: "(if (of_nat n :: u32) < ?nm then of_nat n else ?nm) = of_nat (min n (unat ?nm))"
    using ltn by (auto simp: min_def)
  have dm: "(if (of_nat n :: u32) < ?nm then of_nat n else ?nm) - of_nat i
              = of_nat (min n (unat ?nm) - i)"
    if "i < unat ?nm"
    unfolding m using that assms(2) by (intro of_nat_diff_u32) simp
  have ds: "(of_nat n :: u32) - of_nat i = of_nat (n - i)"
    using assms(2) by (intro of_nat_diff_u32) simp
  have nzm: "(of_nat (min n (unat ?nm) - i) :: u32) \<noteq> 0" if "i < unat ?nm"
    using that assms(2,3) by (intro of_nat_nonzero_u32) auto
  have nzs: "(of_nat (n - i) :: u32) \<noteq> 0"
    using assms(2,3) by (intro of_nat_nonzero_u32) auto
  have mi: "i < min n (unat ?nm) \<longleftrightarrow> i < unat ?nm" using assms(2) by simp
  show ?thesis
  proof (cases "i < unat ?nm")
    case True
    then show ?thesis
      using assms(1) lt dm nzm mi
      by (subst tile_loop.simps) (simp add: Let_def)
  next
    case False
    then show ?thesis
      using assms(1) lt ds nzs mi
      by (subst tile_loop.simps) (simp add: Let_def)
  qed
qed

lemma resize_accepted:
  assumes "cell_ok (x, y, w, h)"
  shows "geometry c (resize c x y w h 0 s) = (x, y, w, h)"
    and "HEIGHT (resize c x y w h 0 s) c = h + 2 * bw (heap s c)"
    and "a \<noteq> c \<Longrightarrow> heap (resize c x y w h 0 s) a = heap s a"
  using assms
  by (simp_all add: cell_ok_def resize_def configure_def xsend_def Let_def geometry_def HEIGHT_def)

lemma tile_cells_cong:
  "same_links s s1 \<Longrightarrow>
   tile_cells (mon s1) (\<lambda>a. bw (heap s1 a)) = tile_cells (mon s) (\<lambda>a. bw (heap s a))"
  using same_links_fields(5)[of s s1] same_links_mon[of s s1] by simp

lemma tile_loop_cells:
  assumes "client_list s c cl" and "cl = [] \<or> tiled s (hd cl)"
    and "length (filter (tiled s) cl) + i = n" and "n < 2 ^ 32"
    and "list_all cell_ok
           (tile_cells (mon s) (\<lambda>a. bw (heap s a)) n mw' i my' ty (filter (tiled s) cl))"
  shows "\<exists>s'. tile_loop (of_nat n) mw' c (of_nat i) my' ty s = Some s' \<and> same_links s s' \<and>
           (\<forall>a. a \<notin> set (filter (tiled s) cl) \<longrightarrow> heap s' a = heap s a) \<and>
           map (\<lambda>a. geometry a s') (filter (tiled s) cl) =
             tile_cells (mon s) (\<lambda>a. bw (heap s a)) n mw' i my' ty (filter (tiled s) cl)"
  using assms
proof (induction "length cl" arbitrary: cl c i my' ty s rule: less_induct)
  case less
  show ?case
  proof (cases cl)
    case Nil
    with less.prems(1) have "tile_loop (of_nat n) mw' c (of_nat i) my' ty s = Some s"
      by (subst tile_loop.simps) simp
    with Nil show ?thesis by (simp add: same_links_refl)
  next
    case (Cons a as)
    with less.prems have c: "c = a" "a \<noteq> NULL" "tiled s a"
      and tl: "client_list s (c_next (heap s a)) as" by auto
    from tl c(2) have anot: "a \<notin> set as" by (rule client_list_head_notin)
    let ?ts = "filter (tiled s) as"
    have f: "filter (tiled s) cl = a # ?ts" using Cons c by simp
    with less.prems(3) have i: "i < n" and rest: "length ?ts + Suc i = n" by auto
    let ?m = "min n (unat (nmaster (mon s)))"
    let ?b = "\<lambda>a. bw (heap s a)"
    define hm where "hm = (wh (mon s) - my') div of_nat (?m - i)"
    define hs where "hs = (wh (mon s) - ty) div of_nat (n - i)"
    define g where "g = (if i < ?m
        then (wx (mon s), wy (mon s) + my', mw' - 2 * ?b a, hm - 2 * ?b a)
        else (wx (mon s) + mw', wy (mon s) + ty, ww (mon s) - mw' - 2 * ?b a, hs - 2 * ?b a))"
    define my1 where "my1 = (if i < ?m then my' + hm else my')"
    define ty1 where "ty1 = (if i < ?m then ty else ty + hs)"
    define s1 where "s1 = (case g of (x, y, w, h) \<Rightarrow> resize a x y w h 0 s)"
    have cells: "tile_cells (mon s) ?b n mw' i my' ty (a # ?ts) =
                   g # tile_cells (mon s) ?b n mw' (Suc i) my1 ty1 ?ts"
      by (simp add: g_def my1_def ty1_def hm_def hs_def Let_def)
    with less.prems(5) f have ok: "cell_ok g"
      and oks: "list_all cell_ok (tile_cells (mon s) ?b n mw' (Suc i) my1 ty1 ?ts)" by simp_all
    have l1: "same_links s s1"
      unfolding s1_def by (cases g) (simp add: same_links_resize)
    have g1: "geometry a s1 = g" and h1: "\<And>b. b \<noteq> a \<Longrightarrow> heap s1 b = heap s b"
      and H1: "HEIGHT s1 a = (if i < ?m then hm else hs)"
      using ok resize_accepted[where c = a and s = s]
      unfolding s1_def by (cases g; auto simp: g_def split: if_splits)+
    have suc: "(of_nat i :: u32) + 1 = of_nat (Suc i)" by simp
    have step: "tile_loop (of_nat n) mw' a (of_nat i) my' ty s =
                  nexttiled s1 (c_next (heap s1 a)) \<bind>
                  (\<lambda>c'. tile_loop (of_nat n) mw' c' (of_nat (Suc i)) my1 ty1 s1)"
    proof (cases "i < ?m")
      case True
      then have s1: "s1 = resize a (wx (mon s)) (wy (mon s) + my') (mw' - 2 * bw (heap s a))
                       (hm - 2 * bw (heap s a)) 0 s"
        by (simp only: s1_def g_def if_True prod.case)
      from True H1 have "HEIGHT s1 a = hm" by (simp only: if_True)
      then show ?thesis
        unfolding tile_loop_step[OF c(2) i less.prems(4)] suc
        using True by (simp only: if_True Let_def hm_def[symmetric] s1[symmetric] my1_def ty1_def)
    next
      case False
      then have s1: "s1 = resize a (wx (mon s) + mw') (wy (mon s) + ty)
                       (ww (mon s) - mw' - 2 * bw (heap s a)) (hs - 2 * bw (heap s a)) 0 s"
        by (simp only: s1_def g_def if_False prod.case)
      from False H1 have "HEIGHT s1 a = hs" by (simp only: if_False)
      then show ?thesis
        unfolding tile_loop_step[OF c(2) i less.prems(4)] suc
        using False by (simp only: if_False Let_def hs_def[symmetric] s1[symmetric] my1_def ty1_def)
    qed
    note ll = same_links_lists[OF l1] and lf = same_links_fields[OF l1]
    from tl have tl1: "client_list s1 (c_next (heap s1 a)) as" using ll(1) lf(3) by simp
    from nexttiled_subset[OF tl1] obtain cl' where
      n: "nexttiled s1 (c_next (heap s1 a)) = Some (hd_ptr cl')"
      and l: "client_list s1 (hd_ptr cl') cl'"
      and fl: "filter (tiled s1) cl' = filter (tiled s1) as"
      and h: "cl' = [] \<or> tiled s1 (hd cl')" and le: "length cl' \<le> length as"
      and sub: "set cl' \<subseteq> set as"
      by blast
    from le Cons have lt: "length cl' < length cl" by simp
    have fl': "filter (tiled s1) cl' = ?ts" using fl ll(3) by simp
    have r1: "length (filter (tiled s1) cl') + Suc i = n" using fl' rest by simp
    have oks1: "list_all cell_ok (tile_cells (mon s1) (\<lambda>a. bw (heap s1 a)) n mw' (Suc i) my1 ty1
                  (filter (tiled s1) cl'))"
      using oks fl' tile_cells_cong[OF l1] by simp
    from less.hyps[OF lt l h r1 less.prems(4) oks1] obtain s' where
      t: "tile_loop (of_nat n) mw' (hd_ptr cl') (of_nat (Suc i)) my1 ty1 s1 = Some s'"
      and l2: "same_links s1 s'"
      and fr: "\<forall>b. b \<notin> set (filter (tiled s1) cl') \<longrightarrow> heap s' b = heap s1 b"
      and geo: "map (\<lambda>a. geometry a s') (filter (tiled s1) cl') =
                  tile_cells (mon s1) (\<lambda>a. bw (heap s1 a)) n mw' (Suc i) my1 ty1
                    (filter (tiled s1) cl')"
      by blast
    from anot have "a \<notin> set ?ts" by simp
    with fr fl' have "heap s' a = heap s1 a" by simp
    with g1 have ga: "geometry a s' = g" by (simp add: geometry_def)
    have "tile_loop (of_nat n) mw' c (of_nat i) my' ty s = Some s'"
      using step n t c by simp
    moreover have "same_links s s'" using l1 l2 by (rule same_links_trans)
    moreover have "\<forall>b. b \<notin> set (filter (tiled s) cl) \<longrightarrow> heap s' b = heap s b"
      using fr h1 fl' f by auto
    moreover have "map (\<lambda>a. geometry a s') (filter (tiled s) cl) =
             tile_cells (mon s) ?b n mw' i my' ty (filter (tiled s) cl)"
      using geo fl' ga f cells tile_cells_cong[OF l1] by simp
    ultimately show ?thesis by blast
  qed
qed

lemma less_of_nat_u32:
  "n < 2 ^ 32 \<Longrightarrow> w < (of_nat n :: u32) \<longleftrightarrow> unat w < n"
  by (simp add: word_less_nat_alt unat_of_nat)

lemma tile_refines_cells:
  assumes "wellformed s cl sl" and "ts = filter (tiled s) cl"
    and "master_width (mon s) (length ts) = Some mw'"
    and "list_all cell_ok
           (tile_cells (mon s) (\<lambda>a. bw (heap s a)) (length ts) mw' 0 0 0 ts)"
  shows "\<exists>s'. tile s = Some s' \<and> same_links s s' \<and>
           (\<forall>a. a \<notin> set ts \<longrightarrow> heap s' a = heap s a) \<and>
           map (\<lambda>a. geometry a s') ts =
             tile_cells (mon s) (\<lambda>a. bw (heap s a)) (length ts) mw' 0 0 0 ts"
proof -
  from assms(1) have cl: "client_list s (clients (mon s)) cl" and len: "length cl < 2 ^ 32"
    by (simp_all add: wellformed_def)
  from nexttiled_subset[OF cl] obtain cl' where
    n: "nexttiled s (clients (mon s)) = Some (hd_ptr cl')"
    and l: "client_list s (hd_ptr cl') cl'"
    and f: "filter (tiled s) cl' = filter (tiled s) cl"
    and h: "cl' = [] \<or> tiled s (hd cl')" and le: "length cl' \<le> length cl"
    and sub: "set cl' \<subseteq> set cl"
    by blast
  let ?n = "length ts"
  from f assms(2) have ts: "filter (tiled s) cl' = ts" by simp
  have "?n \<le> length cl" unfolding assms(2) by (rule length_filter_le)
  with len have n32: "?n < 2 ^ 32" by linarith
  have cnt: "tile_count s (hd_ptr cl') 0 = Some (of_nat ?n)"
    using tile_count_list[OF l h, of 0] ts by simp
  show ?thesis
  proof (cases "?n = 0")
    case True
    then have "ts = []" by simp
    moreover from True n cnt have "tile s = Some s" by (simp add: tile_def)
    ultimately show ?thesis by (simp add: same_links_refl)
  next
    case False
    with n32 have n0: "(of_nat ?n :: u32) \<noteq> 0" by (simp add: of_nat_nonzero_u32)
    have mw: "(if of_nat ?n > nmaster (mon s)
                 then (if nmaster (mon s) \<noteq> 0
                       then float_to_uint
                              (fmul float32 (float32 (real_of_int (sint (ww (mon s)))))
                                 (mfact (mon s)))
                       else Some 0)
                 else Some (ww (mon s))) = Some mw'"
      using assms(3) unfolding master_width_def less_of_nat_u32[OF n32] .
    have "tile s = (if of_nat ?n > nmaster (mon s)
                 then (if nmaster (mon s) \<noteq> 0
                       then float_to_uint
                              (fmul float32 (float32 (real_of_int (sint (ww (mon s)))))
                                 (mfact (mon s)))
                       else Some 0)
                 else Some (ww (mon s))) \<bind>
              (\<lambda>mw'. tile_loop (of_nat ?n) mw' (hd_ptr cl') 0 0 0 s)"
      using n0 by (simp only: tile_def n cnt bind.bind_lunit if_False)
    then have t: "tile s = tile_loop (of_nat ?n) mw' (hd_ptr cl') 0 0 0 s"
      by (simp only: mw bind.bind_lunit)
    from ts have r: "length (filter (tiled s) cl') + 0 = ?n" by simp
    from assms(4) ts have ok: "list_all cell_ok
           (tile_cells (mon s) (\<lambda>a. bw (heap s a)) ?n mw' 0 0 0 (filter (tiled s) cl'))"
      by simp
    from tile_loop_cells[OF l h r n32 ok] obtain s' where
      "tile_loop (of_nat ?n) mw' (hd_ptr cl') 0 0 0 s = Some s'" "same_links s s'"
      "\<forall>a. a \<notin> set (filter (tiled s) cl') \<longrightarrow> heap s' a = heap s a"
      "map (\<lambda>a. geometry a s') (filter (tiled s) cl') =
         tile_cells (mon s) (\<lambda>a. bw (heap s a)) ?n mw' 0 0 0 (filter (tiled s) cl')"
      by auto
    with t ts sub show ?thesis by auto
  qed
qed

section \<open>Sizes stay positive\<close>










section \<open>The tag sets\<close>

lemma bit_cases: "(x :: 1 word) = 0 \<or> x = 1"
proof -
  have "unat x < 2" using unsigned_less[of x, where 'a = nat] by simp
  then have "unat x = 0 \<or> unat x = 1" by auto
  then have "unat x = unat (0 :: 1 word) \<or> unat x = unat (1 :: 1 word)" by simp
  then show ?thesis by (simp only: word_unat_eq_iff)
qed

lemma bit_flip: "(x :: 1 word) XOR 1 \<noteq> x"
  using bit_cases[of x] by auto

lemma bit_flip_cases: "(x :: 1 word) XOR 1 = (if x = 0 then 1 else 0)"
  using bit_cases[of x] by auto

lemma tagsets_nonzero_viewing: "tagsets_nonzero s \<Longrightarrow> viewing s \<noteq> 0"
  using bit_cases[of "seltags (mon s)"] by (auto simp: tagsets_nonzero_def viewing_def)

lemma view_mon:
  assumes "view cfg ui s = Some s'"
  shows "seltags (mon s') =
           (if ui AND TAGMASK cfg = viewing s then seltags (mon s) else seltags (mon s) XOR 1)"
    and "tagset (mon s') =
           (if ui AND TAGMASK cfg = viewing s \<or> ui AND TAGMASK cfg = 0 then tagset (mon s)
            else (tagset (mon s))(seltags (mon s) XOR 1 := ui AND TAGMASK cfg))"
proof -
  show "seltags (mon s') =
           (if ui AND TAGMASK cfg = viewing s then seltags (mon s) else seltags (mon s) XOR 1)"
  proof (cases "ui AND TAGMASK cfg = viewing s")
    case True
    with assms show ?thesis by (simp add: view_def viewing_def)
  next
    case False
    with assms obtain s0 s1 where f: "focus NULL s0 = Some s1" and a: "arrange s1 = Some s'"
      and m: "seltags (mon s0) = seltags (mon s) XOR 1"
      by (auto simp: view_def viewing_def Let_def split: bind_splits if_splits)
    from focus_arrange_mon(1)[OF f a] have "seltags (mon s') = seltags (mon s0)"
      by (metis Monitor.select_convs(11) Monitor.surjective Monitor.update_convs(17))
    with m False show ?thesis by simp
  qed
  show "tagset (mon s') =
           (if ui AND TAGMASK cfg = viewing s \<or> ui AND TAGMASK cfg = 0 then tagset (mon s)
            else (tagset (mon s))(seltags (mon s) XOR 1 := ui AND TAGMASK cfg))"
  proof (cases "ui AND TAGMASK cfg = viewing s")
    case True
    with assms show ?thesis by (simp add: view_def viewing_def)
  next
    case False
    with assms obtain s0 s1 where f: "focus NULL s0 = Some s1" and a: "arrange s1 = Some s'"
      and m: "tagset (mon s0) = (if ui AND TAGMASK cfg = 0 then tagset (mon s)
            else (tagset (mon s))(seltags (mon s) XOR 1 := ui AND TAGMASK cfg))"
      by (auto simp: view_def viewing_def Let_def split: bind_splits if_splits)
    from focus_arrange_mon(1)[OF f a] have "tagset (mon s') = tagset (mon s0)"
      by (metis Monitor.select_convs(13) Monitor.surjective Monitor.update_convs(17))
    with m False show ?thesis by simp
  qed
qed

lemma focus_arrange_tagset:
  assumes "focus c s = Some s1" "arrange s1 = Some s'"
  shows "tagset (mon s') = tagset (mon s) \<and> seltags (mon s') = seltags (mon s)"
proof -
  note m = focus_arrange_mon(1)[OF assms]
  have "tagset (mon s') = tagset (mon s)"
    by (metis m Monitor.select_convs(13) Monitor.surjective Monitor.update_convs(17))
  moreover have "seltags (mon s') = seltags (mon s)"
    by (metis m Monitor.select_convs(11) Monitor.surjective Monitor.update_convs(17))
  ultimately show ?thesis by simp
qed

lemma arrange_tagset:
  "arrange s = Some s' \<Longrightarrow> tagset (mon s') = tagset (mon s) \<and> seltags (mon s') = seltags (mon s)"
  by (simp add: same_links_mon[OF arrange_links])

lemma toggleview_mon:
  assumes "toggleview cfg ui s = Some s'"
  shows "seltags (mon s') = seltags (mon s)"
    and "tagset (mon s') =
           (if viewing s XOR (ui AND TAGMASK cfg) \<noteq> 0
            then (tagset (mon s))(seltags (mon s) := viewing s XOR (ui AND TAGMASK cfg))
            else tagset (mon s))"
  using assms
  by (auto simp: toggleview_def viewing_def Let_def split: bind_splits if_splits
      dest: focus_arrange_tagset)

lemma write_slot_tagset:
  "tagset (mon (write_slot tc v s)) = tagset (mon s)"
  "seltags (mon (write_slot tc v s)) = seltags (mon s)"
  by (cases tc; simp)+

lemma tagset_unchanged:
  "tag cfg ui s = Some s' \<Longrightarrow> tagset (mon s') = tagset (mon s) \<and> seltags (mon s') = seltags (mon s)"
  "toggletag cfg ui s = Some s' \<Longrightarrow> tagset (mon s') = tagset (mon s) \<and> seltags (mon s') = seltags (mon s)"
  "setmfact f s = Some s' \<Longrightarrow> tagset (mon s') = tagset (mon s) \<and> seltags (mon s') = seltags (mon s)"
  "setlayout v s = Some s' \<Longrightarrow> tagset (mon s') = tagset (mon s) \<and> seltags (mon s') = seltags (mon s)"
  "tagset (mon (killclient s)) = tagset (mon s) \<and> seltags (mon (killclient s)) = seltags (mon s)"
  "manage cfg p w wa s = Some s' \<Longrightarrow> tagset (mon s') = tagset (mon s) \<and> seltags (mon s') = seltags (mon s)"
  "unmanage c d s = Some s' \<Longrightarrow> tagset (mon s') = tagset (mon s) \<and> seltags (mon s') = seltags (mon s)"
proof -
  show "tag cfg ui s = Some s' \<Longrightarrow> tagset (mon s') = tagset (mon s) \<and> seltags (mon s') = seltags (mon s)"
    by (auto simp: tag_def split: bind_splits if_splits dest: focus_arrange_tagset)
  show "toggletag cfg ui s = Some s' \<Longrightarrow> tagset (mon s') = tagset (mon s) \<and> seltags (mon s') = seltags (mon s)"
    by (auto simp: toggletag_def Let_def split: bind_splits if_splits dest: focus_arrange_tagset)
  show "setmfact f s = Some s' \<Longrightarrow> tagset (mon s') = tagset (mon s) \<and> seltags (mon s') = seltags (mon s)"
    by (auto simp: setmfact_def Let_def split: option.splits if_splits dest: arrange_tagset)
  show "setlayout v s = Some s' \<Longrightarrow> tagset (mon s') = tagset (mon s) \<and> seltags (mon s') = seltags (mon s)"
    by (auto simp: setlayout_def dest: arrange_tagset)
  show "tagset (mon (killclient s)) = tagset (mon s) \<and> seltags (mon (killclient s)) = seltags (mon s)"
    by (simp add: killclient_def xsend_def)
  show "manage cfg p w wa s = Some s' \<Longrightarrow> tagset (mon s') = tagset (mon s) \<and> seltags (mon s') = seltags (mon s)"
    by (auto simp: manage_def Let_def attach_def attachstack_def applyrules_def xsend_def
        configure_def setclientstate_def split: bind_splits if_splits
        dest!: focus_arrange_tagset)
  show "unmanage c d s = Some s' \<Longrightarrow> tagset (mon s') = tagset (mon s) \<and> seltags (mon s') = seltags (mon s)"
    by (auto simp: unmanage_def detach_def detachstack_def Let_def xsend_def
        setclientstate_def write_slot_tagset split: bind_splits if_splits
        dest!: focus_arrange_tagset)
qed

lemma exec_tagsets_nonzero:
  assumes "exec cfg a s = Some s'" "tagsets_nonzero s"
  shows "tagsets_nonzero s'"
proof (cases a)
  case (View ui)
  with assms(1) have v: "view cfg ui s = Some s'" by simp
  show ?thesis
    using view_mon(2)[OF v] assms(2) bit_cases[of "seltags (mon s)"]
    by (auto simp: tagsets_nonzero_def split: if_splits)
next
  case (ToggleView ui)
  with assms(1) have v: "toggleview cfg ui s = Some s'" by simp
  show ?thesis
    using toggleview_mon(2)[OF v] assms(2) bit_cases[of "seltags (mon s)"]
    by (auto simp: tagsets_nonzero_def split: if_splits)
qed (use assms tagset_unchanged in \<open>auto simp: tagsets_nonzero_def\<close>)

lemma run_actions_tagsets_nonzero:
  "run_actions cfg as s = Some s' \<Longrightarrow> tagsets_nonzero s \<Longrightarrow> tagsets_nonzero s'"
proof (induction as arbitrary: s)
  case Nil
  then show ?case by simp
next
  case (Cons a as)
  then show ?case by (auto split: bind_splits dest: exec_tagsets_nonzero)
qed

lemma dwm_setup_tagsets: "tagsets_nonzero (dwm_setup cfg dw dh)"
  by (simp add: tagsets_nonzero_def dwm_setup_def createmon_def updategeom_def calloc_Monitor_def)

lemma two_clients_facts:
  obtains s where "two_clients = Some s" and "wellformed s [2, 1] [2, 1]"
    and "sel (mon s) = 2" and "mfact (mon s) = Finite (9227469 / 16777216)" and "viewing s = 1"
    and "tags (heap s 1) = 1" and "tags (heap s 2) = 1"
proof -
  have "two_clients \<noteq> None" by code_simp
  then obtain s where s: "two_clients = Some s" by auto
  have "case two_clients of None \<Rightarrow> False | Some s \<Rightarrow>
          client_list s (clients (mon s)) [2, 1] \<and> stack_list s (stack (mon s)) [2, 1]
          \<and> sellt (mon s) = 0 \<and> ww (mon s) = 1000 \<and> mfact (mon s) = Finite (9227469 / 16777216)
          \<and> sel (mon s) = 2 \<and> viewing s = 1 \<and> tags (heap s 1) = 1 \<and> tags (heap s 2) = 1"
    by code_simp
  then have f: "client_list s (clients (mon s)) [2, 1]" "stack_list s (stack (mon s)) [2, 1]"
    "sellt (mon s) = 0" "ww (mon s) = 1000" "mfact (mon s) = Finite (9227469 / 16777216)"
    "sel (mon s) = 2" "viewing s = 1" "tags (heap s 1) = 1" "tags (heap s 2) = 1"
    unfolding s by simp_all
  then have "wellformed s [2, 1] [2, 1]"
    by (simp add: wellformed_def layouts_def word_sle_eq)
  with s f that show ?thesis by blast
qed

lemma three_clients_facts:
  obtains s where "three_clients = Some s" and "wellformed s [3, 2, 1] [3, 2, 1]"
    and "filter (tiled s) [3, 2, 1] = [3, 2, 1]"
    and "master_width (mon s) 3 = Some 550"
    and "tile_cells (mon s) (\<lambda>a. bw (heap s a)) 3 550 0 0 0 [3, 2, 1]
           = [(0, 0, 548, 398), (0, 400, 548, 399), (550, 0, 448, 799)]"
    and "nmaster (mon s) = 2" and "wh (mon s) = 801"
proof -
  have "three_clients \<noteq> None" by code_simp
  then obtain s where s: "three_clients = Some s" by auto
  have "case three_clients of None \<Rightarrow> False | Some s \<Rightarrow>
          client_list s (clients (mon s)) [3, 2, 1] \<and> stack_list s (stack (mon s)) [3, 2, 1]
          \<and> sellt (mon s) = 0 \<and> ww (mon s) = 1000 \<and> mfact (mon s) = Finite (9227469 / 16777216)
          \<and> filter (tiled s) [3, 2, 1] = [3, 2, 1]
          \<and> master_width (mon s) 3 = Some 550
          \<and> tile_cells (mon s) (\<lambda>a. bw (heap s a)) 3 550 0 0 0 [3, 2, 1]
               = [(0, 0, 548, 398), (0, 400, 548, 399), (550, 0, 448, 799)]
          \<and> nmaster (mon s) = 2 \<and> wh (mon s) = 801"
    by code_simp
  then have f: "client_list s (clients (mon s)) [3, 2, 1]"
    "stack_list s (stack (mon s)) [3, 2, 1]"
    "sellt (mon s) = 0" "ww (mon s) = 1000" "mfact (mon s) = Finite (9227469 / 16777216)"
    "filter (tiled s) [3, 2, 1] = [3, 2, 1]"
    "master_width (mon s) 3 = Some 550"
    "tile_cells (mon s) (\<lambda>a. bw (heap s a)) 3 550 0 0 0 [3, 2, 1]
       = [(0, 0, 548, 398), (0, 400, 548, 399), (550, 0, 448, 799)]"
    "nmaster (mon s) = 2" "wh (mon s) = 801"
    unfolding s option.case by blast+
  then have "wellformed s [3, 2, 1] [3, 2, 1]"
    by (simp add: wellformed_def layouts_def word_sle_eq)
  with s f that show ?thesis by blast
qed

lemma two_clients_mapped:
  "map_option (geometry 2)
     (manage cfg0 1 w1 wa1 startup_state \<bind> manage cfg0 2 w2 wa2) = Some (0, 0, 548, 798)
   \<and> map_option (geometry 1)
     (manage cfg0 1 w1 wa1 startup_state \<bind> manage cfg0 2 w2 wa2) = Some (550, 0, 448, 798)
   \<and> (case manage cfg0 1 w1 wa1 startup_state \<bind> manage cfg0 2 w2 wa2 of
         None \<Rightarrow> False
       | Some s \<Rightarrow> client_list s (clients (mon s)) [2, 1])
   \<and> (wx (mon startup_state), wy (mon startup_state), ww (mon startup_state),
        wh (mon startup_state)) = (0, 0, 1000, 800)
   \<and> mfact (mon startup_state) = float32 (55 / 100) \<and> nmaster (mon startup_state) = 1
   \<and> borderpx cfg0 = 1"
  by code_simp

lemma fle_not_fless: "fle x y \<Longrightarrow> \<not> fless y x"
  by (cases x; cases y) auto

lemma fle_trans: "fle x y \<Longrightarrow> fle y z \<Longrightarrow> fle x z"
  by (cases x; cases y; cases z) auto

lemma setmfact_request:
  "setmfact (Some a) s =
     (let f = mfact_request (mfact (mon s)) a
      in if fless f (float64 (1 / 10)) \<or> fless (float64 (9 / 10)) f then Some s
         else arrange (s\<lparr>mon := (mon s)\<lparr>mfact := f\<rparr>\<rparr>))"
proof -
  have "double_to_float (if fless a (Finite 1) then fadd float32 a (mfact (mon s))
                          else fsub float64 a (Finite 1))
        = mfact_request (mfact (mon s)) a"
    using fadd_commute[of float32 a "mfact (mon s)"]
    by (cases a) (auto simp: mfact_request_def fsub_def)
  then show ?thesis by (simp add: setmfact_def Let_def)
qed

lemma two_clients_setmfact:
  "map_option (\<lambda>s. map (\<lambda>c. geometry c s) [2, 1])
     (two_clients \<bind> setmfact (Some (Finite (11744051 / 33554432))))
     = Some [(0, 0, 898, 798), (900, 0, 98, 798)]"
  by code_simp

text \<open>
  With a NaN as \<open>mfact\<close> and two tiled clients, \<open>tile\<close> converts a NaN to
  \<open>unsigned int\<close>, which is undefined.
\<close>

lemma setmfact_nan_undefined: "two_clients \<bind> setmfact (Some NaN) = None"
  by code_simp


section \<open>The claims\<close>

subsection \<open>C1: the view is never empty\<close>

text \<open>
  Claim C1. The view \<open>tagset[seltags]\<close> of the monitor is non-zero after monitor
  creation, which sets both slots to 1, and after every sequence of actions that
  completes from there. In such a state \<open>s\<close>: a completed \<open>view\<close> whose masked
  argument is non-zero makes that mask the view; a completed \<open>view(0)\<close> flips
  \<open>seltags\<close> and leaves \<open>tagset\<close> as it is; the view is non-zero after a completed
  \<open>view\<close> or \<open>toggleview\<close>; and \<open>toggleview\<close> with an argument whose XOR with the view
  is 0 returns the state unchanged.
\<close>

theorem tagset_selected_nonzero:
  assumes "run_actions cfg as (dwm_setup cfg dw dh) = Some s"
    and "view cfg ui s = Some sv" and "ui AND TAGMASK cfg \<noteq> 0"
    and "view cfg 0 s = Some sp"
    and "toggleview cfg uj s = Some st"
    and "viewing s XOR (uk AND TAGMASK cfg) = 0"
  shows "tagset (createmon cfg None) 0 = 1 \<and> tagset (createmon cfg None) 1 = 1
       \<and> viewing s \<noteq> 0
       \<and> viewing sv = ui AND TAGMASK cfg \<and> viewing sv \<noteq> 0
       \<and> seltags (mon sp) = seltags (mon s) XOR 1 \<and> tagset (mon sp) = tagset (mon s)
       \<and> viewing sp \<noteq> 0
       \<and> viewing st \<noteq> 0
       \<and> toggleview cfg uk s = Some s"
proof -
  have inv: "tagsets_nonzero s"
    using run_actions_tagsets_nonzero[OF assms(1) dwm_setup_tagsets] .
  then have nz: "viewing s \<noteq> 0" by (rule tagsets_nonzero_viewing)
  have c: "tagset (createmon cfg None) 0 = 1 \<and> tagset (createmon cfg None) 1 = 1"
    by (simp add: createmon_def calloc_Monitor_def)
  have sv: "viewing sv = ui AND TAGMASK cfg"
    using view_mon[OF assms(2)] assms(3) by (auto simp: viewing_def)
  have sp: "seltags (mon sp) = seltags (mon s) XOR 1 \<and> tagset (mon sp) = tagset (mon s)"
    using view_mon[OF assms(4)] nz by auto
  have "tagsets_nonzero sp" "tagsets_nonzero st"
    using exec_tagsets_nonzero[of cfg "View 0" s sp] exec_tagsets_nonzero[of cfg "ToggleView uj" s st]
      assms(4,5) inv by auto
  then have nz2: "viewing sp \<noteq> 0" "viewing st \<noteq> 0" by (auto dest: tagsets_nonzero_viewing)
  have t: "toggleview cfg uk s = Some s"
    using assms(6) by (simp add: toggleview_def viewing_def)
  from c nz sv sp nz2 t assms(3) show ?thesis by simp
qed

theorem tagset_selected_nonzero_witness:
  "\<exists>s sv sp st.
     run_actions cfg0 [Manage 1 101 wa0, View 2, ToggleView 4] (dwm_setup cfg0 1000 800) = Some s
     \<and> view cfg0 8 s = Some sv \<and> 8 AND TAGMASK cfg0 \<noteq> 0
     \<and> view cfg0 0 s = Some sp
     \<and> toggleview cfg0 16 s = Some st
     \<and> viewing s XOR (6 AND TAGMASK cfg0) = 0
     \<and> viewing s \<noteq> 0 \<and> viewing sv = 8 AND TAGMASK cfg0 \<and> viewing sv \<noteq> 0
     \<and> seltags (mon sp) = seltags (mon s) XOR 1 \<and> tagset (mon sp) = tagset (mon s)
     \<and> viewing sp \<noteq> 0 \<and> viewing st \<noteq> 0 \<and> toggleview cfg0 6 s = Some s"
proof -
  let ?r = "run_actions cfg0 [Manage 1 101 wa0, View 2, ToggleView 4] (dwm_setup cfg0 1000 800)"
  have "?r \<noteq> None" by code_simp
  then obtain s where s: "?r = Some s" by auto
  have "(?r \<bind> view cfg0 8) \<noteq> None" by code_simp
  with s obtain sv where sv: "view cfg0 8 s = Some sv" by auto
  have "(?r \<bind> view cfg0 0) \<noteq> None" by code_simp
  with s obtain sp where sp: "view cfg0 0 s = Some sp" by auto
  have "(?r \<bind> toggleview cfg0 16) \<noteq> None" by code_simp
  with s obtain st where st: "toggleview cfg0 16 s = Some st" by auto
  have "map_option viewing ?r = Some 6" by code_simp
  with s have v: "viewing s = 6" by simp
  have m: "(8 :: u32) AND TAGMASK cfg0 \<noteq> 0" "(6 :: u32) AND TAGMASK cfg0 = 6"
    by (simp_all add: TAGMASK_def cfg0_def)
  from v m have z: "viewing s XOR (6 AND TAGMASK cfg0) = 0" by simp
  from tagset_selected_nonzero[OF s sv m(1) sp st z] s sv sp st m z
  show ?thesis by blast
qed

subsection \<open>C2: tiling two clients\<close>

text \<open>
  The claim as written fails: \<open>attach\<close> puts a new client at the head of the client
  list, so after mapping W1 and then W2 the master is W2. W1 is not at
  \<open>(0, 0, 548, 798)\<close> and W2 is not at \<open>(550, 0, 448, 798)\<close>.
\<close>

theorem tile_two_clients_counterexample:
  "map_option (geometry 1) two_clients \<noteq> Some (0, 0, 548, 798)
   \<and> map_option (geometry 2) two_clients \<noteq> Some (550, 0, 448, 798)"
proof -
  have a: "map_option (geometry 1) two_clients = Some (550, 0, 448, 798)" by code_simp
  have b: "map_option (geometry 2) two_clients = Some (0, 0, 548, 798)" by code_simp
  show ?thesis unfolding a b by simp
qed

text \<open>
  Claim C2, amended. The rule: let \<open>ts\<close> be the tiled clients of a well-formed state
  in client-list order, \<open>n\<close> their number and \<open>mw\<close> the master width (\<open>ww\<close> when
  \<open>n \<le> nmaster\<close>, 0 when \<open>nmaster = 0\<close>, else the \<open>float\<close> product \<open>ww * mfact\<close>
  truncated). When no cell of \<open>tile_cells\<close> has a width or height that is zero or
  negative, \<open>tile\<close> returns and the geometries of \<open>ts\<close> are those cells: the first
  \<open>min(n, nmaster)\<close> clients fill the master column at \<open>x = wx\<close> with width \<open>mw\<close> and row
  height \<open>(wh - consumed) / (min(n, nmaster) - i)\<close>, the others the stack column at
  \<open>x = wx + mw\<close> with width \<open>ww - mw\<close> and row height \<open>(wh - consumed) / (n - i)\<close>,
  \<open>2 * bw\<close> taken off each width and height.

  The scenario: on one monitor with window area 1000 x 800, \<open>mfact\<close> the \<open>float\<close>
  nearest to 0.55, \<open>nmaster = 1\<close> and border width 1, after mapping exactly two tiled
  clients W1 (at address 1) and then W2 (at address 2), whatever their windows and
  attributes, the client list is W2, W1, and W2 is at \<open>(0, 0, 548, 798)\<close> and W1 at
  \<open>(550, 0, 448, 798)\<close>.
\<close>

theorem tile_two_clients:
  assumes "wellformed s cl sl" and "ts = filter (tiled s) cl"
    and "master_width (mon s) (length ts) = Some mw'"
    and "list_all cell_ok
           (tile_cells (mon s) (\<lambda>a. bw (heap s a)) (length ts) mw' 0 0 0 ts)"
  shows "(\<exists>s'. tile s = Some s'
            \<and> map (\<lambda>c. geometry c s') ts
                = tile_cells (mon s) (\<lambda>a. bw (heap s a)) (length ts) mw' 0 0 0 ts
            \<and> (\<forall>a. a \<notin> set ts \<longrightarrow> geometry a s' = geometry a s))
       \<and> map_option (geometry 2)
           (manage cfg0 1 w1 wa1 startup_state \<bind> manage cfg0 2 w2 wa2)
             = Some (0, 0, 548, 798)
       \<and> map_option (geometry 1)
           (manage cfg0 1 w1 wa1 startup_state \<bind> manage cfg0 2 w2 wa2)
             = Some (550, 0, 448, 798)
       \<and> (case manage cfg0 1 w1 wa1 startup_state \<bind> manage cfg0 2 w2 wa2 of
             None \<Rightarrow> False
           | Some s \<Rightarrow> client_list s (clients (mon s)) [2, 1])
       \<and> (wx (mon startup_state), wy (mon startup_state), ww (mon startup_state),
            wh (mon startup_state)) = (0, 0, 1000, 800)
       \<and> mfact (mon startup_state) = float32 (55 / 100) \<and> nmaster (mon startup_state) = 1
       \<and> borderpx cfg0 = 1"
proof -
  from tile_refines_cells[OF assms] obtain s' where "tile s = Some s'"
    "\<forall>a. a \<notin> set ts \<longrightarrow> heap s' a = heap s a"
    "map (\<lambda>a. geometry a s') ts =
       tile_cells (mon s) (\<lambda>a. bw (heap s a)) (length ts) mw' 0 0 0 ts"
    by blast
  then have "\<exists>s'. tile s = Some s'
            \<and> map (\<lambda>c. geometry c s') ts
                = tile_cells (mon s) (\<lambda>a. bw (heap s a)) (length ts) mw' 0 0 0 ts
            \<and> (\<forall>a. a \<notin> set ts \<longrightarrow> geometry a s' = geometry a s)"
    by (auto simp: geometry_def)
  with two_clients_mapped[of w1 wa1 w2 wa2] show ?thesis by blast
qed

theorem tile_two_clients_witness:
  "\<exists>s. three_clients = Some s \<and> wellformed s [3, 2, 1] [3, 2, 1]
     \<and> nmaster (mon s) = 2 \<and> wh (mon s) = 801
     \<and> [3, 2, 1] = filter (tiled s) [3, 2, 1]
     \<and> master_width (mon s) (length [3 :: ptr, 2, 1]) = Some 550
     \<and> list_all cell_ok
         (tile_cells (mon s) (\<lambda>a. bw (heap s a)) (length [3 :: ptr, 2, 1]) 550 0 0 0 [3, 2, 1])
     \<and> (\<exists>s'. tile s = Some s'
          \<and> map (\<lambda>c. geometry c s') [3, 2, 1]
              = [(0, 0, 548, 398), (0, 400, 548, 399), (550, 0, 448, 799)])"
proof -
  from three_clients_facts obtain s where s: "three_clients = Some s"
    and wf: "wellformed s [3, 2, 1] [3, 2, 1]"
    and ts: "filter (tiled s) [3, 2, 1] = [3, 2, 1]"
    and mw: "master_width (mon s) 3 = Some 550"
    and cells: "tile_cells (mon s) (\<lambda>a. bw (heap s a)) 3 550 0 0 0 [3, 2, 1]
           = [(0, 0, 548, 398), (0, 400, 548, 399), (550, 0, 448, 799)]"
    and m: "nmaster (mon s) = 2" "wh (mon s) = 801"
    by blast
  have len: "length [3 :: ptr, 2, 1] = 3" by simp
  have ts': "[3, 2, 1] = filter (tiled s) [3, 2, 1]" using ts by (rule sym)
  have mw': "master_width (mon s) (length [3 :: ptr, 2, 1]) = Some 550"
    unfolding len by (rule mw)
  have ok: "list_all cell_ok
         (tile_cells (mon s) (\<lambda>a. bw (heap s a)) (length [3 :: ptr, 2, 1]) 550 0 0 0 [3, 2, 1])"
    unfolding len cells by (simp add: cell_ok_def word_sle_eq)
  from tile_two_clients[OF wf ts' mw' ok] obtain s' where "tile s = Some s'"
    "map (\<lambda>c. geometry c s') [3, 2, 1]
       = tile_cells (mon s) (\<lambda>a. bw (heap s a)) (length [3 :: ptr, 2, 1]) 550 0 0 0 [3, 2, 1]"
    by blast
  then have "tile s = Some s'
          \<and> map (\<lambda>c. geometry c s') [3, 2, 1]
              = [(0, 0, 548, 398), (0, 400, 548, 399), (550, 0, 448, 799)]"
    unfolding len cells by (rule conjI)
  then have "\<exists>s'. tile s = Some s'
          \<and> map (\<lambda>c. geometry c s') [3, 2, 1]
              = [(0, 0, 548, 398), (0, 400, 548, 399), (550, 0, 448, 799)]"
    by (rule exI)
  with s wf m ts' mw' ok show ?thesis
    by - (rule exI[of _ s], intro conjI, assumption+)
qed

subsection \<open>C3: the previous view\<close>

text \<open>
  The claim as written fails: after \<open>view(2); view(4); view(0)\<close> from the view 1 the
  monitor views 2, not 4.
\<close>

theorem view_previous_counterexample:
  "map_option viewing two_clients = Some 1
   \<and> 2 AND TAGMASK cfg0 = 2 \<and> 4 AND TAGMASK cfg0 = 4
   \<and> map_option viewing (two_clients \<bind> view cfg0 2 \<bind> view cfg0 4 \<bind> view cfg0 0) = Some 2
   \<and> map_option viewing (two_clients \<bind> view cfg0 2 \<bind> view cfg0 4 \<bind> view cfg0 0)
       \<noteq> Some (4 AND TAGMASK cfg0)"
proof -
  have a: "map_option viewing two_clients = Some 1" by code_simp
  have b: "(2 :: u32) AND TAGMASK cfg0 = 2" "(4 :: u32) AND TAGMASK cfg0 = 4"
    by (simp_all add: TAGMASK_def cfg0_def)
  have c: "map_option viewing (two_clients \<bind> view cfg0 2 \<bind> view cfg0 4 \<bind> view cfg0 0) = Some 2"
    by code_simp
  have d: "map_option viewing (two_clients \<bind> view cfg0 2 \<bind> view cfg0 4 \<bind> view cfg0 0)
       \<noteq> Some (4 AND TAGMASK cfg0)"
    unfolding c b by simp
  from a b c d show ?thesis by blast
qed

text \<open>
  Claim C3, amended. In a well-formed state, for masks \<open>a\<close> and \<open>b\<close> that are non-zero
  under \<open>TAGMASK\<close> and differ from each other and from the view, \<open>view(a); view(b);
  view(0)\<close> completes and leaves the monitor viewing \<open>a\<close>, the view before \<open>b\<close>:
  \<open>view(0)\<close> flips \<open>seltags\<close> and assigns no mask.
\<close>

theorem view_previous:
  assumes "wellformed s cl sl"
    and "a AND TAGMASK cfg \<noteq> 0" and "b AND TAGMASK cfg \<noteq> 0"
    and "a AND TAGMASK cfg \<noteq> b AND TAGMASK cfg"
    and "a AND TAGMASK cfg \<noteq> viewing s" and "b AND TAGMASK cfg \<noteq> viewing s"
  shows "\<exists>s1 s2 s3. view cfg a s = Some s1 \<and> view cfg b s1 = Some s2 \<and> view cfg 0 s2 = Some s3
           \<and> viewing s2 = b AND TAGMASK cfg \<and> viewing s3 = a AND TAGMASK cfg
           \<and> seltags (mon s3) = seltags (mon s2) XOR 1 \<and> tagset (mon s3) = tagset (mon s2)"
proof -
  from view_total[OF assms(1)] obtain s1 where s1: "view cfg a s = Some s1"
    and w1: "wellformed s1 cl sl" by blast
  from view_total[OF w1] obtain s2 where s2: "view cfg b s1 = Some s2"
    and w2: "wellformed s2 cl sl" by blast
  from view_total[OF w2] obtain s3 where s3: "view cfg 0 s2 = Some s3" by blast
  note v1 = view_mon[OF s1] and v2 = view_mon[OF s2] and v3 = view_mon[OF s3]
  have e1: "viewing s1 = a AND TAGMASK cfg"
    using v1 assms(2,5) by (auto simp: viewing_def)
  have e2: "viewing s2 = b AND TAGMASK cfg"
    using v2 assms(3,4) e1 by (auto simp: viewing_def)
  have t2: "tagset (mon s2) (seltags (mon s2) XOR 1) = a AND TAGMASK cfg"
    using v1 v2 assms(2,3,4,5) e1 bit_flip[of "seltags (mon s)"] bit_cases[of "seltags (mon s)"]
    by (auto simp: viewing_def split: if_splits)
  have f: "seltags (mon s3) = seltags (mon s2) XOR 1 \<and> tagset (mon s3) = tagset (mon s2)"
    using v3 e2 assms(3) by auto
  with t2 have "viewing s3 = a AND TAGMASK cfg" by (simp add: viewing_def)
  with s1 s2 s3 e2 f show ?thesis by blast
qed

theorem view_previous_witness:
  "\<exists>s. two_clients = Some s \<and> wellformed s [2, 1] [2, 1]
     \<and> 2 AND TAGMASK cfg0 \<noteq> 0 \<and> 4 AND TAGMASK cfg0 \<noteq> 0
     \<and> 2 AND TAGMASK cfg0 \<noteq> 4 AND TAGMASK cfg0
     \<and> 2 AND TAGMASK cfg0 \<noteq> viewing s \<and> 4 AND TAGMASK cfg0 \<noteq> viewing s
     \<and> (\<exists>s1 s2 s3. view cfg0 2 s = Some s1 \<and> view cfg0 4 s1 = Some s2
            \<and> view cfg0 0 s2 = Some s3
            \<and> viewing s2 = 4 AND TAGMASK cfg0 \<and> viewing s3 = 2 AND TAGMASK cfg0
            \<and> seltags (mon s3) = seltags (mon s2) XOR 1 \<and> tagset (mon s3) = tagset (mon s2))"
proof -
  from two_clients_facts obtain s where s: "two_clients = Some s"
    and wf: "wellformed s [2, 1] [2, 1]" and v: "viewing s = 1"
    by blast
  have m: "(2 :: u32) AND TAGMASK cfg0 = 2" "(4 :: u32) AND TAGMASK cfg0 = 4"
    by (simp_all add: TAGMASK_def cfg0_def)
  have h: "2 AND TAGMASK cfg0 \<noteq> 0" "4 AND TAGMASK cfg0 \<noteq> 0"
    "2 AND TAGMASK cfg0 \<noteq> 4 AND TAGMASK cfg0"
    "2 AND TAGMASK cfg0 \<noteq> viewing s" "4 AND TAGMASK cfg0 \<noteq> viewing s"
    using m v by simp_all
  from view_previous[OF wf h] h s wf show ?thesis by blast
qed

subsection \<open>C4: the bounds of the master fraction\<close>

text \<open>
  The claim as written fails: the bounds in \<open>setmfact\<close> are 0.1 and 0.9. The argument
  1.0625 asks for the fraction 0.0625, which lies in \<open>[0.05, 0.95]\<close>, and is rejected.
  (1.0625 and 0.0625 are binary fractions, so no operation rounds them.)
\<close>

theorem setmfact_bounds_counterexample:
  "fle (Finite (1 / 20)) (mfact_request (mfact (mon startup_state)) (Finite (17 / 16)))
   \<and> fle (mfact_request (mfact (mon startup_state)) (Finite (17 / 16))) (Finite (19 / 20))
   \<and> setmfact (Some (Finite (17 / 16))) startup_state = Some startup_state
   \<and> mfact (mon startup_state) \<noteq> mfact_request (mfact (mon startup_state)) (Finite (17 / 16))"
proof -
  have a: "mfact_request (mfact (mon startup_state)) (Finite (17 / 16)) = Finite (1 / 16)"
    by code_simp
  have c: "mfact (mon startup_state) = Finite (9227469 / 16777216)" by code_simp
  show ?thesis
    unfolding setmfact_request a by (simp add: Let_def c float_constants)
qed

text \<open>
  Claim C4, amended. \<open>setmfact\<close> takes an argument of at least 1.0 as absolute (the
  argument minus 1.0, a \<open>double\<close>) and a smaller one as relative (added to the current
  \<open>mfact\<close>, a \<open>float\<close>); the result is the \<open>float\<close> \<open>mfact_request\<close>. It is compared
  with the \<open>double\<close> constants 0.1 and 0.9. In a well-formed state a result within
  these bounds is stored and the monitor re-arranged: the state returned is that of
  \<open>arrange\<close> on the state with the new \<open>mfact\<close>. A result below 0.1 or above 0.9 is
  rejected: the state stays as it is, so \<open>mfact\<close> is unchanged and nothing is
  re-arranged. A null argument does nothing. A NaN argument gives a NaN, which is
  neither below 0.1 nor above 0.9: it is stored and the monitor re-arranged with it.
\<close>

theorem setmfact_bounds:
  assumes "wellformed s cl sl"
    and "fle (float64 (1 / 10)) (mfact_request (mfact (mon s)) a)"
    and "fle (mfact_request (mfact (mon s)) a) (float64 (9 / 10))"
    and "fless (mfact_request (mfact (mon s)) r) (float64 (1 / 10))
         \<or> fless (float64 (9 / 10)) (mfact_request (mfact (mon s)) r)"
  shows "(\<exists>s'. setmfact (Some a) s = Some s'
              \<and> arrange (s\<lparr>mon := (mon s)\<lparr>mfact := mfact_request (mfact (mon s)) a\<rparr>\<rparr>)
                  = Some s'
              \<and> mfact (mon s') = mfact_request (mfact (mon s)) a)
       \<and> setmfact (Some r) s = Some s \<and> setmfact None s = Some s
       \<and> mfact_request (mfact (mon s)) NaN = NaN
       \<and> setmfact (Some NaN) s = arrange (s\<lparr>mon := (mon s)\<lparr>mfact := NaN\<rparr>\<rparr>)"
proof -
  let ?f = "mfact_request (mfact (mon s)) a"
  let ?s0 = "s\<lparr>mon := (mon s)\<lparr>mfact := ?f\<rparr>\<rparr>"
  have "fle (Finite 0) (float64 (1 / 10))" "fle (float64 (9 / 10)) (Finite 1)"
    by (simp_all add: float_constants)
  with assms(2,3) have "fle (Finite 0) ?f" "fle ?f (Finite 1)"
    by (blast intro: fle_trans)+
  with assms(1) have "wellformed ?s0 cl sl"
    by (simp add: wellformed_def list_frame)
  from arrange_total[OF this] obtain s' where a: "arrange ?s0 = Some s'" by blast
  from same_links_mon[OF arrange_links[OF a]] have "mfact (mon s') = ?f" by simp
  moreover from a assms(2,3) have "setmfact (Some a) s = Some s'"
    by (simp add: setmfact_request Let_def fle_not_fless)
  moreover from assms(4) have "setmfact (Some r) s = Some s"
    by (simp add: setmfact_request Let_def)
  moreover have "setmfact None s = Some s" by (simp add: setmfact_def)
  moreover have n: "mfact_request (mfact (mon s)) NaN = NaN"
    using fadd_commute[of float32 "mfact (mon s)" NaN] by (simp add: mfact_request_def)
  moreover have "setmfact (Some NaN) s = arrange (s\<lparr>mon := (mon s)\<lparr>mfact := NaN\<rparr>\<rparr>)"
    by (simp add: setmfact_request n Let_def float_constants)
  ultimately show ?thesis using a by blast
qed

theorem setmfact_bounds_witness:
  "\<exists>s. two_clients = Some s \<and> wellformed s [2, 1] [2, 1]
     \<and> mfact (mon s) = Finite (9227469 / 16777216)
     \<and> fle (float64 (1 / 10)) (mfact_request (mfact (mon s)) (Finite (11744051 / 33554432)))
     \<and> fle (mfact_request (mfact (mon s)) (Finite (11744051 / 33554432))) (float64 (9 / 10))
     \<and> (fless (mfact_request (mfact (mon s)) (Finite (1 / 2))) (float64 (1 / 10))
          \<or> fless (float64 (9 / 10)) (mfact_request (mfact (mon s)) (Finite (1 / 2))))
     \<and> (\<exists>s'. setmfact (Some (Finite (11744051 / 33554432))) s = Some s'
            \<and> arrange (s\<lparr>mon := (mon s)\<lparr>mfact := Finite (7549747 / 8388608)\<rparr>\<rparr>) = Some s'
            \<and> mfact (mon s') = Finite (7549747 / 8388608)
            \<and> map (\<lambda>c. geometry c s') [2, 1] = [(0, 0, 898, 798), (900, 0, 98, 798)])
     \<and> setmfact (Some (Finite (1 / 2))) s = Some s \<and> setmfact None s = Some s
     \<and> setmfact (Some NaN) s = arrange (s\<lparr>mon := (mon s)\<lparr>mfact := NaN\<rparr>\<rparr>)"
proof -
  from two_clients_facts obtain s where s: "two_clients = Some s"
    and wf: "wellformed s [2, 1] [2, 1]" and m: "mfact (mon s) = Finite (9227469 / 16777216)"
    by blast
  have v: "mfact_request (Finite (9227469 / 16777216)) (Finite (11744051 / 33554432))
             = Finite (7549747 / 8388608)"
    and v': "mfact_request (Finite (9227469 / 16777216)) (Finite (1 / 2))
             = Finite (4404019 / 4194304)"
    by code_simp+
  have h: "fle (float64 (1 / 10)) (mfact_request (mfact (mon s)) (Finite (11744051 / 33554432)))"
    "fle (mfact_request (mfact (mon s)) (Finite (11744051 / 33554432))) (float64 (9 / 10))"
    "fless (mfact_request (mfact (mon s)) (Finite (1 / 2))) (float64 (1 / 10))
       \<or> fless (float64 (9 / 10)) (mfact_request (mfact (mon s)) (Finite (1 / 2)))"
    unfolding m v v' float_constants by simp_all
  from two_clients_setmfact
  have g: "map_option (\<lambda>s. map (\<lambda>c. geometry c s) [2, 1])
             (setmfact (Some (Finite (11744051 / 33554432))) s)
             = Some [(0, 0, 898, 798), (900, 0, 98, 798)]"
    unfolding s bind.bind_lunit .
  from setmfact_bounds[OF wf h] obtain s' where
    a: "setmfact (Some (Finite (11744051 / 33554432))) s = Some s'"
    and b: "arrange (s\<lparr>mon := (mon s)\<lparr>mfact := Finite (7549747 / 8388608)\<rparr>\<rparr>) = Some s'"
    and c: "mfact (mon s') = Finite (7549747 / 8388608)"
    and d: "setmfact (Some (Finite (1 / 2))) s = Some s" "setmfact None s = Some s"
      "setmfact (Some NaN) s = arrange (s\<lparr>mon := (mon s)\<lparr>mfact := NaN\<rparr>\<rparr>)"
    unfolding m v by blast
  from g have "map (\<lambda>c. geometry c s') [2, 1] = [(0, 0, 898, 798), (900, 0, 98, 798)]"
    unfolding a by (simp only: option.map option.inject)
  with a b c have "\<exists>s'. setmfact (Some (Finite (11744051 / 33554432))) s = Some s'
            \<and> arrange (s\<lparr>mon := (mon s)\<lparr>mfact := Finite (7549747 / 8388608)\<rparr>\<rparr>) = Some s'
            \<and> mfact (mon s') = Finite (7549747 / 8388608)
            \<and> map (\<lambda>c. geometry c s') [2, 1] = [(0, 0, 898, 798), (900, 0, 98, 798)]"
    by - (rule exI[of _ s'], intro conjI, assumption+)
  with s wf m h d show ?thesis
    by - (rule exI[of _ s], intro conjI, assumption+)
qed

subsection \<open>C5: detaching from the stack\<close>

text \<open>
  Claim C5. For a client \<open>c\<close> in the stack list \<open>cs\<close> of its monitor, \<open>detachstack\<close>
  returns and the stack list is then \<open>cs\<close> without \<open>c\<close>; the visibility of clients is
  unchanged; and when \<open>c\<close> was \<open>sel\<close>, \<open>sel\<close> becomes the first client of the
  remaining stack that is visible under the current tag set, or \<open>NULL\<close> when there is
  none (otherwise \<open>sel\<close> stays).
\<close>

theorem detachstack_removes:
  assumes "stack_list s (stack (mon s)) cs" and "c \<in> set cs"
  shows "\<exists>s'. detachstack c s = Some s' \<and>
           stack_list s' (stack (mon s')) (remove1 c cs) \<and> c \<notin> set (remove1 c cs) \<and>
           ISVISIBLE s' = ISVISIBLE s \<and>
           sel (mon s') =
             (if sel (mon s) = c then first_visible_of s (remove1 c cs) else sel (mon s))"
proof -
  let ?v = "snext (heap s c)"
  from detachstack_loop_list[of s StackHead cs c] assms obtain tc' where
    l: "detachstack_loop s c StackHead = Some tc'"
    and w: "tc' = StackHead \<or> (\<exists>y\<in>set cs. tc' = SnextOf y)"
    and r: "stack_list (write_slot tc' ?v s) (stack (mon (write_slot tc' ?v s))) (remove1 c cs)"
    by auto
  let ?s1 = "write_slot tc' ?v s"
  from w have sel1: "sel (mon ?s1) = sel (mon s)" by auto
  from w have vis1: "ISVISIBLE ?s1 = ISVISIBLE s"
    by (auto simp: ISVISIBLE_def fun_eq_iff split: if_splits)
  have notin: "c \<notin> set (remove1 c cs)"
    using stack_list_distinct[OF assms(1)] by simp
  show ?thesis
  proof (cases "c = sel (mon s)")
    case True
    let ?t = "first_visible_of ?s1 (remove1 c cs)"
    let ?s' = "?s1\<lparr>mon := (mon ?s1)\<lparr>sel := ?t\<rparr>\<rparr>"
    have vis: "ISVISIBLE ?s' = ISVISIBLE ?s1" by (auto simp: ISVISIBLE_def fun_eq_iff)
    have t: "?t = first_visible_of s (remove1 c cs)"
      using vis1 by (simp add: first_visible_of_def)
    have "detachstack c s = Some ?s'"
      using l True sel1 first_visible_list[OF r] by (simp add: detachstack_def Let_def)
    moreover have "stack_list ?s' (stack (mon ?s')) (remove1 c cs)"
      using r by (simp add: list_frame)
    ultimately show ?thesis using notin True vis vis1 t by simp
  next
    case False
    then have "detachstack c s = Some ?s1"
      using l sel1 by (simp add: detachstack_def Let_def)
    with r notin False sel1 vis1 show ?thesis by auto
  qed
qed

theorem detachstack_removes_witness:
  "\<exists>s. two_clients = Some s \<and> stack_list s (stack (mon s)) [2, 1] \<and> 2 \<in> set [2, 1 :: ptr]
     \<and> sel (mon s) = 2
     \<and> (\<exists>s'. detachstack 2 s = Some s' \<and> stack_list s' (stack (mon s')) [1]
            \<and> 2 \<notin> set (remove1 2 [2, 1 :: ptr]) \<and> sel (mon s') = 1)"
proof -
  have "two_clients \<noteq> None" by code_simp
  then obtain s where s: "two_clients = Some s" by auto
  have "case two_clients of None \<Rightarrow> False | Some s \<Rightarrow>
          stack_list s (stack (mon s)) [2, 1] \<and> sel (mon s) = 2 \<and> first_visible_of s [1] = 1"
    by code_simp
  then have l: "stack_list s (stack (mon s)) [2, 1]" and sl: "sel (mon s) = 2"
    and fv: "first_visible_of s [1] = 1"
    unfolding s by simp_all
  have m: "2 \<in> set [2, 1 :: ptr]" by simp
  from detachstack_removes[OF l m] sl fv obtain s' where
    "detachstack 2 s = Some s'" "stack_list s' (stack (mon s')) [1]"
    "2 \<notin> set (remove1 2 [2, 1 :: ptr])" "sel (mon s') = 1"
    by auto
  with s l sl m show ?thesis by blast
qed

subsection \<open>C6: the X error handler\<close>

text \<open>
  The errors \<open>xerror\<close> swallows, returning 0 and logging nothing, are exactly the benign
  ones. For any other error it logs the codes and calls \<open>xerrorxlib\<close>.
\<close>

lemma xerror_swallows_iff: "xerror s ee = Inr (0, s) \<longleftrightarrow> benign ee"
proof
  assume "benign ee"
  then show "xerror s ee = Inr (0, s)"
    by (auto simp: xerror_def benign_def)
next
  assume a: "xerror s ee = Inr (0, s)"
  show "benign ee"
  proof (rule ccontr)
    assume "\<not> benign ee"
    then have "xerror s ee =
        (case xerrorxlib s of None \<Rightarrow> Inl NullFunctionCall
         | Some handler \<Rightarrow> Inr (handler ee, s\<lparr>err := err s @ [fatal_message ee]\<rparr>))"
      by (auto simp: xerror_def benign_def Let_def)
    with a have "s\<lparr>err := err s @ [fatal_message ee]\<rparr> = s"
      by (auto split: option.splits)
    then have "err (s\<lparr>err := err s @ [fatal_message ee]\<rparr>) = err s"
      by (rule arg_cong)
    then show False by simp
  qed
qed

lemma xerror_delegates:
  "\<not> benign ee \<Longrightarrow> xerrorxlib s = Some handler \<Longrightarrow>
   xerror s ee = Inr (handler ee, s\<lparr>err := err s @ [fatal_message ee]\<rparr>)"
  by (auto simp: xerror_def benign_def Let_def)

lemma xerror_null_call:
  "\<not> benign ee \<Longrightarrow> xerrorxlib s = None \<Longrightarrow> xerror s ee = Inl NullFunctionCall"
  by (auto simp: xerror_def benign_def Let_def)

text \<open>No action assigns \<open>xerrorxlib\<close>, so it is null whenever \<open>xerror\<close> runs.\<close>

lemma write_slot_xerrorxlib: "xerrorxlib (write_slot tc v s) = xerrorxlib s"
  by (cases tc) simp_all

lemma arrange_xerrorxlib: "arrange s = Some s' \<Longrightarrow> xerrorxlib s' = xerrorxlib s"
  using arrange_links[of s s'] by (simp add: same_links_def)

lemma focus_arrange_xerrorxlib:
  "(focus c s \<bind> arrange) = Some s' \<Longrightarrow> xerrorxlib s' = xerrorxlib s"
  by (auto split: bind_splits dest: focus_arrange_mon(3))

lemma exec_xerrorxlib:
  assumes "exec cfg a s = Some s'"
  shows "xerrorxlib s' = xerrorxlib s"
proof (cases a)
  case (View ui)
  with assms show ?thesis
    by (auto simp: view_def Let_def split: if_splits dest!: focus_arrange_xerrorxlib)
next
  case (ToggleView ui)
  with assms show ?thesis
    by (auto simp: toggleview_def Let_def split: if_splits dest!: focus_arrange_xerrorxlib)
next
  case (Tag ui)
  with assms show ?thesis
    by (auto simp: tag_def split: if_splits dest!: focus_arrange_xerrorxlib)
next
  case (ToggleTag ui)
  with assms show ?thesis
    by (auto simp: toggletag_def Let_def split: if_splits dest!: focus_arrange_xerrorxlib)
next
  case (SetMfact f)
  with assms show ?thesis
    by (auto simp: setmfact_def Let_def split: if_splits option.splits dest!: arrange_xerrorxlib)
next
  case (SetLayout v)
  with assms show ?thesis
    by (auto simp: setlayout_def dest!: arrange_xerrorxlib)
next
  case KillClient
  with assms show ?thesis by (auto simp: killclient_def xsend_def)
next
  case (Manage p w wa)
  with assms show ?thesis
    by (auto simp: manage_def Let_def attach_def attachstack_def applyrules_def xsend_def
        configure_def setclientstate_def split: if_splits dest!: focus_arrange_xerrorxlib)
next
  case (Unmanage c d)
  let ?s3 = "\<lambda>s2. if \<not> d
                 then xsend XUngrabServer (xsend XSync (setclientstate c WithdrawnState
                        (xsend (XUngrabButton (win (heap s2 c))) (xsend XGrabServer s2))))
                 else s2"
  from assms Unmanage obtain s1 s2 where d1: "detach c s = Some s1"
    and d2: "detachstack c s1 = Some s2"
    and r: "(focus NULL (?s3 s2) \<bind> arrange) = Some s'"
    by (auto simp: unmanage_def Let_def split: bind_splits)
  from d1 have "xerrorxlib s1 = xerrorxlib s"
    by (auto simp: detach_def write_slot_xerrorxlib split: bind_splits)
  moreover from d2 have "xerrorxlib s2 = xerrorxlib s1"
    by (auto simp: detachstack_def Let_def write_slot_xerrorxlib split: bind_splits if_splits)
  moreover have "xerrorxlib (?s3 s2) = xerrorxlib s2"
    by (simp add: xsend_def setclientstate_def)
  ultimately show ?thesis using focus_arrange_xerrorxlib[OF r] by simp
qed

lemma run_actions_xerrorxlib:
  "run_actions cfg as s = Some s' \<Longrightarrow> xerrorxlib s' = xerrorxlib s"
proof (induction as arbitrary: s)
  case Nil
  then show ?case by simp
next
  case (Cons a as)
  then show ?case by (auto split: bind_splits dest: exec_xerrorxlib)
qed

lemma xerrorxlib_never_set:
  "run_actions cfg as (dwm_setup cfg dw dh) = Some s \<Longrightarrow> xerrorxlib s = None"
  by (auto dest: run_actions_xerrorxlib simp: dwm_setup_def)

lemma xerror_after_setup:
  assumes "run_actions cfg as (dwm_setup cfg dw dh) = Some s"
  shows "xerror s ee = (if benign ee then Inr (0, s) else Inl NullFunctionCall)"
  using xerrorxlib_never_set[OF assms] xerror_swallows_iff[of s ee] xerror_null_call[of ee s]
  by auto

lemma fatal_message_example:
  "fatal_message \<lparr>request_code = X_CreateWindow, error_code = BadAlloc\<rparr>
     = ''dwm: fatal error: request code=1, error code=11'' @ [CHR 0x0A]"
  by code_simp

text \<open>
  Claim C6, at the failing input. After \<open>dwm_setup\<close>, \<open>xerror\<close> on the error
  \<open>BadAlloc\<close> of the request \<open>X_CreateWindow\<close>, which is not on the list, does not
  reach the default handler of Xlib: it calls through the null pointer \<open>xerrorxlib\<close>.
\<close>

theorem xerror_unknown_error_null_call:
  "xerror startup_state \<lparr>request_code = X_CreateWindow, error_code = BadAlloc\<rparr>
     = Inl NullFunctionCall"
  by (simp add: xerror_def startup_state_def dwm_setup_def Let_def BadAlloc_def BadWindow_def
      BadMatch_def BadDrawable_def BadAccess_def X_CreateWindow_def X_SetInputFocus_def
      X_PolyText8_def X_PolyFillRectangle_def X_PolySegment_def X_ConfigureWindow_def
      X_GrabButton_def X_GrabKey_def X_CopyArea_def)

subsection \<open>C7: killing the selected client\<close>

text \<open>
  The claim as written fails: with W2 selected and window 102 listing
  \<open>WM_DELETE_WINDOW\<close>, \<open>killclient\<close> sends \<open>XKillClient\<close> where the specification
  sends the client message.
\<close>

theorem killclient_counterexample:
  "map_option selected two_clients = Some 2
   \<and> map_option last_request (map_option killclient two_clients)
       = Some (Some (XKillClient 102))
   \<and> map_option last_request (map_option (killclient_spec [102]) two_clients)
       = Some (Some (SendClientMessage 102 ''WM_DELETE_WINDOW''))"
  by code_simp

text \<open>
  Claim C7, amended. \<open>killclient\<close> with no selected client is a no-op; with a selected
  client it issues \<open>XKillClient\<close> against the client's window and nothing else,
  whatever the client's \<open>WM_PROTOCOLS\<close>: it does what the specification describes for
  a client that does not list \<open>WM_DELETE_WINDOW\<close>.
\<close>

theorem killclient_kills:
  assumes "sel (mon s) = NULL" and "sel (mon t) \<noteq> NULL"
  shows "killclient s = s
       \<and> killclient t = t\<lparr>xlog := xlog t @ [XKillClient (win (heap t (sel (mon t))))]\<rparr>
       \<and> killclient t = killclient_spec [] t"
  using assms by (simp add: killclient_def killclient_spec_def xsend_def)

theorem killclient_kills_witness:
  "\<exists>t. two_clients = Some t \<and> sel (mon startup_state) = NULL \<and> sel (mon t) \<noteq> NULL
     \<and> killclient startup_state = startup_state
     \<and> killclient t = t\<lparr>xlog := xlog t @ [XKillClient (win (heap t (sel (mon t))))]\<rparr>
     \<and> killclient t = killclient_spec [] t"
proof -
  have "two_clients \<noteq> None" by code_simp
  then obtain t where t: "two_clients = Some t" by auto
  have "map_option selected two_clients = Some 2" by code_simp
  then have st: "sel (mon t) \<noteq> NULL" unfolding t by (simp add: selected_def)
  have s0: "sel (mon startup_state) = NULL"
    by (simp add: startup_state_def dwm_setup_def createmon_def updategeom_def calloc_Monitor_def)
  from killclient_kills[OF s0 st] t s0 st show ?thesis by blast
qed

subsection \<open>C8: toggling a tag twice\<close>

text \<open>
  The claim as written fails: \<open>toggletag\<close> refocuses. With W2 selected, both clients
  on tag 1 and the view 1, \<open>toggletag(3)\<close> leaves W2 with tag 2 only, so W2 is hidden
  and W1 becomes selected; the second \<open>toggletag(3)\<close> then changes W1. Neither
  application has an empty result, and W2 keeps the tags 2 instead of 1.
\<close>

theorem toggletag_twice_counterexample:
  "map_option (tags_of 2) two_clients = Some 1
   \<and> map_option selected two_clients = Some 2
   \<and> map_option (tags_of 2) (two_clients \<bind> toggletag cfg0 3) = Some 2
   \<and> map_option selected (two_clients \<bind> toggletag cfg0 3) = Some 1
   \<and> map_option (tags_of 1) (two_clients \<bind> toggletag cfg0 3) = Some 1
   \<and> map_option (tags_of 1) (two_clients \<bind> toggletag cfg0 3 \<bind> toggletag cfg0 3) = Some 2
   \<and> map_option (tags_of 2) (two_clients \<bind> toggletag cfg0 3 \<bind> toggletag cfg0 3) = Some 2"
  by code_simp

lemma toggletag_tags:
  assumes "toggletag cfg t s = Some s'"
  shows "tags (heap s' c) =
           (if sel (mon s) = c \<and> c \<noteq> NULL \<and> tags (heap s c) XOR (t AND TAGMASK cfg) \<noteq> 0
            then tags (heap s c) XOR (t AND TAGMASK cfg) else tags (heap s c))"
  using assms
  by (auto simp: toggletag_def Let_def split: if_splits bind_splits
      dest!: focus_arrange_mon(2)[where a = c])

text \<open>
  Claim C8, amended. In a well-formed state with \<open>c\<close> selected, if \<open>toggletag(t)\<close> is
  not rejected by the empty-mask rule, \<open>c\<close> is still the selected client after it,
  and the second \<open>toggletag(t)\<close> is not rejected either, then the second application
  completes and the tags of \<open>c\<close> are again what they were.
\<close>

theorem toggletag_twice:
  assumes "wellformed s cl sl" and "sel (mon s) = c" and "c \<noteq> NULL"
    and "tags (heap s c) XOR (t AND TAGMASK cfg) \<noteq> 0"
    and "toggletag cfg t s = Some s1" and "sel (mon s1) = c"
    and "tags (heap s1 c) XOR (t AND TAGMASK cfg) \<noteq> 0"
  shows "\<exists>s2. toggletag cfg t s1 = Some s2 \<and> tags (heap s2 c) = tags (heap s c)"
proof -
  from toggletag_total[OF assms(1), of cfg t] assms(5) have "wellformed s1 cl sl" by simp
  from toggletag_total[OF this, of cfg t] obtain s2 where
    s2: "toggletag cfg t s1 = Some s2" by blast
  from toggletag_tags[OF assms(5), of c] assms(2,3,4)
  have t1: "tags (heap s1 c) = tags (heap s c) XOR (t AND TAGMASK cfg)" by simp
  from toggletag_tags[OF s2, of c] assms(6,3,7) t1
  have "tags (heap s2 c) = tags (heap s c)" by (simp add: xor.assoc)
  with s2 show ?thesis by blast
qed

theorem toggletag_twice_witness:
  "\<exists>s s1. (two_clients \<bind> toggleview cfg0 2) = Some s \<and> wellformed s [2, 1] [2, 1]
     \<and> sel (mon s) = 2 \<and> (2 :: ptr) \<noteq> NULL
     \<and> tags (heap s 2) XOR (2 AND TAGMASK cfg0) \<noteq> 0
     \<and> toggletag cfg0 2 s = Some s1 \<and> sel (mon s1) = 2
     \<and> tags (heap s1 2) XOR (2 AND TAGMASK cfg0) \<noteq> 0
     \<and> (\<exists>s2. toggletag cfg0 2 s1 = Some s2 \<and> tags (heap s2 2) = tags (heap s 2))"
proof -
  let ?r = "two_clients \<bind> toggleview cfg0 2"
  have "?r \<noteq> None" by code_simp
  then obtain s where s: "?r = Some s" by auto
  have "(?r \<bind> toggletag cfg0 2) \<noteq> None" by code_simp
  then obtain s1 where s1: "toggletag cfg0 2 s = Some s1" unfolding s by auto
  have "case ?r of None \<Rightarrow> False | Some s \<Rightarrow>
          client_list s (clients (mon s)) [2, 1] \<and> stack_list s (stack (mon s)) [2, 1]
          \<and> sellt (mon s) = 0 \<and> ww (mon s) = 1000 \<and> mfact (mon s) = Finite (9227469 / 16777216)
          \<and> sel (mon s) = 2 \<and> tags (heap s 2) XOR (2 AND TAGMASK cfg0) \<noteq> 0"
    by code_simp
  then have f: "client_list s (clients (mon s)) [2, 1]" "stack_list s (stack (mon s)) [2, 1]"
    "sellt (mon s) = 0" "ww (mon s) = 1000" "mfact (mon s) = Finite (9227469 / 16777216)"
    and a23: "sel (mon s) = 2" "tags (heap s 2) XOR (2 AND TAGMASK cfg0) \<noteq> 0"
    unfolding s by simp_all
  from f have a1: "wellformed s [2, 1] [2, 1]"
    by (simp add: wellformed_def layouts_def word_sle_eq)
  note a = a1 a23
  have "case ?r \<bind> toggletag cfg0 2 of None \<Rightarrow> False | Some s1 \<Rightarrow>
          sel (mon s1) = 2 \<and> tags (heap s1 2) XOR (2 AND TAGMASK cfg0) \<noteq> 0"
    by code_simp
  then have b: "sel (mon s1) = 2" "tags (heap s1 2) XOR (2 AND TAGMASK cfg0) \<noteq> 0"
    unfolding s bind.bind_lunit s1 by simp_all
  have n: "(2 :: ptr) \<noteq> NULL" by simp
  from toggletag_twice[OF a(1,2) n a(3) s1 b] s s1 a b n show ?thesis by blast
qed

subsection \<open>C9: the command line\<close>

text \<open>
  The claim as written fails: \<open>main\<close> prints the version with \<open>die\<close>, which writes
  to stderr and exits with status 1.
\<close>

theorem main_version_counterexample:
  "main [''dwm'', ''-v''] = Exited (''dwm-minimal-1.0'' @ [CHR 0x0A]) 1
   \<and> main [''dwm'', ''-v''] \<noteq> Exited (''dwm-minimal-1.0'' @ [CHR 0x0A]) 0"
  by (simp add: main_def die_def)

text \<open>
  Claim C9, amended. With the single argument \<open>-v\<close> the program writes the version
  string to stderr and exits with status 1; with any other non-empty argument list it
  writes the usage message to stderr and exits with status 1; with no argument it
  goes on.
\<close>

theorem main_arguments:
  assumes "args \<noteq> []" and "args \<noteq> [''-v'']"
  shows "main [prog, ''-v''] = Exited (''dwm-minimal-1.0'' @ [CHR 0x0A]) 1
       \<and> main (prog # args) = Exited (''usage: dwm [-v]'' @ [CHR 0x0A]) 1
       \<and> main [prog] = Proceeds"
proof -
  have "\<not> (length (prog # args) = 2 \<and> (prog # args) ! 1 = ''-v'')"
  proof
    assume a: "length (prog # args) = 2 \<and> (prog # args) ! 1 = ''-v''"
    then obtain x where "args = [x]" by (cases args) auto
    with a assms(2) show False by simp
  qed
  moreover from assms(1) have "length (prog # args) \<noteq> 1" by simp
  ultimately show ?thesis by (simp add: main_def die_def)
qed

theorem main_arguments_witness:
  "[''-x''] \<noteq> [] \<and> [''-x''] \<noteq> [''-v'']
   \<and> main [''dwm'', ''-v''] = Exited (''dwm-minimal-1.0'' @ [CHR 0x0A]) 1
   \<and> main [''dwm'', ''-x''] = Exited (''usage: dwm [-v]'' @ [CHR 0x0A]) 1
   \<and> main [''dwm''] = Proceeds
   \<and> main [''dwm'', ''-v'', ''-v''] = Exited (''usage: dwm [-v]'' @ [CHR 0x0A]) 1"
proof -
  have a: "[''-x''] \<noteq> []" "[''-x''] \<noteq> [''-v'']" by simp_all
  have b: "[''-v'', ''-v''] \<noteq> []" "[''-v'', ''-v''] \<noteq> [''-v'']" by simp_all
  from main_arguments[OF a, of "''dwm''"] main_arguments[OF b, of "''dwm''"] a
  show ?thesis by simp
qed

subsection \<open>C10: resize rejects empty cells\<close>




end
